theory Spec2Isabelle
  imports Complex_Main "HOL-Library.Word"
begin

section \<open>The DMA demonstration program \<^verbatim>\<open>simple_pipeline/sw/main.cpp\<close>\<close>

text \<open>
  The program validates one command-line argument, opens the accelerator through the
  \<^verbatim>\<open>AFU\<close> wrapper, allocates and initialises two shared buffers, programs four
  registers, polls a fifth and prints the output buffer. The target is Linux on x86-64
  (the only platform of the vendor runtime): \<^verbatim>\<open>unsigned\<close> is a \<open>32 word\<close>,
  \<^verbatim>\<open>long\<close> and \<^verbatim>\<open>unsigned long\<close> have 64 bits, \<^verbatim>\<open>EXIT_FAILURE\<close> is 1.
\<close>

subsection \<open>Argument parsing\<close>

text \<open>
  A \<^verbatim>\<open>char *\<close> argument is a \<open>string\<close>: the characters before the terminating NUL.
  The test \<^verbatim>\<open>*p == '\0'\<close> on a pointer into such a string is \<open>p = []\<close>.

  \<^verbatim>\<open>strtol(str, &p, 10)\<close> is the C library's, as ISO C 7.22.1.4 fixes it for base 10
  and a 64-bit \<^verbatim>\<open>long\<close>: white space is skipped, one sign is optional, the longest run
  of decimal digits is converted; without a digit nothing is converted, the value is 0
  and the end pointer is the start of the string; a value out of range is clamped to
  \<^verbatim>\<open>LONG_MIN\<close> or \<^verbatim>\<open>LONG_MAX\<close>. The result is the value and the rest of the string
  at the end pointer.
\<close>

definition isspace :: "char \<Rightarrow> bool" where
  "isspace c = (c \<in> set [CHR '' '', CHR 0x09, CHR 0x0A, CHR 0x0B, CHR 0x0C, CHR 0x0D])"

definition isdigit :: "char \<Rightarrow> bool" where
  "isdigit c = (48 \<le> (of_char c :: nat) \<and> (of_char c :: nat) \<le> 57)"

definition digit_value :: "char \<Rightarrow> int" where
  "digit_value c = int (of_char c) - 48"

fun decimal :: "int \<Rightarrow> string \<Rightarrow> int" where
  "decimal acc [] = acc"
| "decimal acc (c # cs) = decimal (10 * acc + digit_value c) cs"

definition LONG_MAX :: int where
  "LONG_MAX = 2 ^ 63 - 1"

definition LONG_MIN :: int where
  "LONG_MIN = - (2 ^ 63)"

definition strtol :: "string \<Rightarrow> int \<times> string" where
  "strtol nptr =
     (let s = dropWhile isspace nptr;
          negative = (case s of [] \<Rightarrow> False | c # _ \<Rightarrow> c = CHR ''-'');
          signed = (case s of [] \<Rightarrow> False | c # _ \<Rightarrow> c = CHR ''-'' \<or> c = CHR ''+'');
          body = (if signed then tl s else s);
          digits = takeWhile isdigit body;
          endptr = dropWhile isdigit body
      in if digits = [] then (0, nptr)
         else (let v = decimal 0 digits;
                   r = (if negative then - v else v)
               in (max LONG_MIN (min LONG_MAX r), endptr)))"

text \<open>
  \<^verbatim>\<open>stringToPositiveInt\<close> throws only \<^verbatim>\<open>runtime_error\<close>: \<open>Inl w\<close> is that exception
  with message \<open>w\<close>. \<^verbatim>\<open>strtol\<close> always stores an end pointer, so \<^verbatim>\<open>p != 0\<close> holds.
  The \<^verbatim>\<open>long\<close> is returned as \<^verbatim>\<open>unsigned long\<close>.
\<close>

definition stringToPositiveInt :: "string \<Rightarrow> string + 64 word" where
  "stringToPositiveInt str =
     (case strtol str of (num, p) \<Rightarrow>
        if p = [] \<and> num > 0 then Inr (word_of_int num)
        else Inl ''String is not a positive integer.'')"

text \<open>
  \<^verbatim>\<open>checkUsage\<close> writes \<^verbatim>\<open>num_inputs\<close> through a reference and returns a flag; \<^verbatim>\<open>main\<close>
  reads the variable only when the flag is true, so the result is \<open>Some num_inputs\<close>
  for true and \<open>None\<close> for false.
\<close>

definition checkUsage :: "nat \<Rightarrow> string list \<Rightarrow> 64 word option" where
  "checkUsage argc argv =
     (if argc = 2 then
        (case stringToPositiveInt (argv ! 1) of
           Inr num_inputs \<Rightarrow> if num_inputs mod 128 \<noteq> 0 then None else Some num_inputs
         | Inl e \<Rightarrow> None)
      else None)"

subsection \<open>The accelerator interface\<close>

text \<open>
  \<^verbatim>\<open>fpga_result\<close> is the vendor runtime's error enumeration. The \<^verbatim>\<open>catch\<close> clauses of
  \<^verbatim>\<open>main\<close> name three exception types: \<^verbatim>\<open>fpga_result\<close>, \<^verbatim>\<open>runtime_error\<close> (with its
  message) and the runtime's \<^verbatim>\<open>no_driver\<close>.
\<close>

datatype fpga_result =
    FPGA_OK | FPGA_INVALID_PARAM | FPGA_BUSY | FPGA_EXCEPTION | FPGA_NOT_FOUND
  | FPGA_NO_MEMORY | FPGA_NOT_SUPPORTED | FPGA_NO_DRIVER | FPGA_NO_DAEMON
  | FPGA_NO_ACCESS | FPGA_RECONF_ERROR

datatype exn = Fpga_result fpga_result | Runtime_error string | No_driver

text \<open>
  Modelled from the spec: the register offsets \<^verbatim>\<open>MMIO_RD_ADDR\<close>, \<^verbatim>\<open>MMIO_WR_ADDR\<close>,
  \<^verbatim>\<open>MMIO_SIZE\<close>, \<^verbatim>\<open>MMIO_GO\<close> and \<^verbatim>\<open>MMIO_DONE\<close> are macros of \<^verbatim>\<open>config.h\<close>, which
  is not among the sources; the spec's register protocol has these five registers
  (read address, write address, size, start trigger, done flag).
\<close>

datatype mmio_reg = MMIO_RD_ADDR | MMIO_WR_ADDR | MMIO_SIZE | MMIO_GO | MMIO_DONE

datatype buffer = Input | Output

text \<open>
  What a run does to the outside, in order: calls of the \<^verbatim>\<open>AFU\<close> wrapper, accesses to
  the shared (\<^verbatim>\<open>volatile\<close>) buffers, sleeps, exceptions thrown by the wrapper, and
  what is printed.
\<close>

datatype event =
    Call_AFU string
  | Call_measureClock
  | Call_malloc buffer "64 word"
  | Call_free buffer
  | MMIO_write mmio_reg "64 word"
  | MMIO_read mmio_reg
  | Store buffer nat "64 word"
  | Load buffer nat
  | Sleep nat
  | Throw exn
  | Cout string
  | Cout_clock nat
  | Cout_value "64 word"
  | Cerr string

text \<open>
  The settings of \<^verbatim>\<open>config.h\<close> and \<^verbatim>\<open>afu_json_info.h\<close> that \<^verbatim>\<open>main\<close> uses are
  parameters: the accelerator's UUID, whether \<^verbatim>\<open>SLEEP_WHILE_WAITING\<close> is defined, and
  \<^verbatim>\<open>SLEEP_MS\<close>.
\<close>

record config =
  AFU_ACCEL_UUID :: string
  SLEEP_WHILE_WAITING :: bool
  SLEEP_MS :: nat

text \<open>
  The \<^verbatim>\<open>AFU\<close> class and the vendor runtime under it are external: a \<open>driver\<close> fixes
  how they answer. Every call of the wrapper either throws or returns. The \<open>k\<close>-th
  read of a register has its own answer. \<open>shared_memory\<close> is the content of the memory
  that \<^verbatim>\<open>AFU::malloc\<close> hands out. The buffers are shared with the accelerator, so what
  a load of \<^verbatim>\<open>output[j]\<close> finds is the accelerator's doing: \<open>accelerator mmio memory j\<close>
  is the value loaded, given the register accesses that the software has made so far
  (\<open>mmio\<close>, the \<open>MMIO_write\<close> and \<open>MMIO_read\<close> events of the run in order) and what the
  software has stored in the buffers (\<open>memory\<close>). The clock frequency is kept as the
  number the driver reports.
\<close>

record driver =
  afu_open :: "string \<Rightarrow> exn option"
  afu_clock :: "exn + nat"
  afu_alloc :: "buffer \<Rightarrow> 64 word \<Rightarrow> exn + 64 word"
  afu_mmio_write :: "mmio_reg \<Rightarrow> 64 word \<Rightarrow> exn option"
  afu_mmio_read :: "nat \<Rightarrow> mmio_reg \<Rightarrow> exn + 64 word"
  afu_release :: "buffer \<Rightarrow> exn option"
  fpgaErrStr :: "fpga_result \<Rightarrow> string"
  shared_memory :: "buffer \<Rightarrow> nat \<Rightarrow> 64 word"
  accelerator :: "event list \<Rightarrow> (buffer \<Rightarrow> nat \<Rightarrow> 64 word) \<Rightarrow> nat \<Rightarrow> 64 word"

subsection \<open>Runs: state, exceptions, non-termination\<close>

record machine =
  mem :: "buffer \<Rightarrow> nat \<Rightarrow> 64 word"
  trace :: "event list"

text \<open>
  A statement maps the machine to \<open>None\<close> when it does not terminate, to
  \<open>Some (Inl (e, m))\<close> when it throws \<open>e\<close>, and to \<open>Some (Inr (x, m))\<close> when it
  returns \<open>x\<close>.
\<close>

type_synonym 'a result = "(exn \<times> machine) + ('a \<times> machine)"

definition log :: "event \<Rightarrow> machine \<Rightarrow> machine" where
  "log e m = m\<lparr>trace := trace m @ [e]\<rparr>"

definition succeed :: "'a \<Rightarrow> machine \<Rightarrow> 'a result option" where
  "succeed x m = Some (Inr (x, m))"

definition throw :: "exn \<Rightarrow> machine \<Rightarrow> 'a result option" where
  "throw e m = Some (Inl (e, log (Throw e) m))"

definition and_then ::
  "(machine \<Rightarrow> 'a result option) \<Rightarrow> ('a \<Rightarrow> machine \<Rightarrow> 'b result option) \<Rightarrow>
   machine \<Rightarrow> 'b result option" where
  "and_then f g m =
     (case f m of
        None \<Rightarrow> None
      | Some (Inl x) \<Rightarrow> Some (Inl x)
      | Some (Inr (a, m')) \<Rightarrow> g a m')"

definition AFU_construct :: "driver \<Rightarrow> string \<Rightarrow> machine \<Rightarrow> unit result option" where
  "AFU_construct drv uuid m =
     (let m' = log (Call_AFU uuid) m
      in case afu_open drv uuid of Some e \<Rightarrow> throw e m' | None \<Rightarrow> succeed () m')"

definition AFU_measureClock :: "driver \<Rightarrow> machine \<Rightarrow> nat result option" where
  "AFU_measureClock drv m =
     (let m' = log Call_measureClock m
      in case afu_clock drv of Inl e \<Rightarrow> throw e m' | Inr hz \<Rightarrow> succeed hz m')"

definition AFU_malloc ::
  "driver \<Rightarrow> buffer \<Rightarrow> 64 word \<Rightarrow> machine \<Rightarrow> (64 word) result option" where
  "AFU_malloc drv b elements m =
     (let m' = log (Call_malloc b elements) m
      in case afu_alloc drv b elements of Inl e \<Rightarrow> throw e m' | Inr p \<Rightarrow> succeed p m')"

definition AFU_write ::
  "driver \<Rightarrow> mmio_reg \<Rightarrow> 64 word \<Rightarrow> machine \<Rightarrow> unit result option" where
  "AFU_write drv addr data m =
     (let m' = log (MMIO_write addr data) m
      in case afu_mmio_write drv addr data of Some e \<Rightarrow> throw e m' | None \<Rightarrow> succeed () m')"

definition AFU_read ::
  "driver \<Rightarrow> nat \<Rightarrow> mmio_reg \<Rightarrow> machine \<Rightarrow> (64 word) result option" where
  "AFU_read drv k addr m =
     (let m' = log (MMIO_read addr) m
      in case afu_mmio_read drv k addr of Inl e \<Rightarrow> throw e m' | Inr v \<Rightarrow> succeed v m')"

definition AFU_free :: "driver \<Rightarrow> buffer \<Rightarrow> machine \<Rightarrow> unit result option" where
  "AFU_free drv b m =
     (let m' = log (Call_free b) m
      in case afu_release drv b of Some e \<Rightarrow> throw e m' | None \<Rightarrow> succeed () m')"

definition cout :: "event \<Rightarrow> machine \<Rightarrow> unit result option" where
  "cout e m = succeed () (log e m)"

definition store :: "buffer \<Rightarrow> nat \<Rightarrow> 64 word \<Rightarrow> machine \<Rightarrow> machine" where
  "store b i v m = log (Store b i v) (m\<lparr>mem := (mem m)(b := (mem m b)(i := v))\<rparr>)"

text \<open>
  Line 106, \<^verbatim>\<open>cout << output[i] << endl\<close>: the load of \<^verbatim>\<open>output[i]\<close> from the shared
  buffer, and the line printed with the value loaded.
\<close>

definition is_mmio :: "event \<Rightarrow> bool" where
  "is_mmio e = (case e of MMIO_write r v \<Rightarrow> True | MMIO_read r \<Rightarrow> True | _ \<Rightarrow> False)"

definition print_output :: "driver \<Rightarrow> nat \<Rightarrow> machine \<Rightarrow> machine" where
  "print_output drv i m =
     log (Cout_value (accelerator drv (filter is_mmio (trace m)) (mem m) i))
       (log (Load Output i) m)"

definition sleep_for :: "config \<Rightarrow> machine \<Rightarrow> machine" where
  "sleep_for cfg m = (if SLEEP_WHILE_WAITING cfg then log (Sleep (SLEEP_MS cfg)) m else m)"

subsection \<open>The loops\<close>

text \<open>
  All three counting loops have the header \<^verbatim>\<open>for (unsigned i=0; i < bound; i++)\<close>
  with an \<^verbatim>\<open>unsigned long\<close> bound: the 32-bit counter is converted to 64 bits for the
  comparison and wraps around when incremented. The loop need not terminate, so it is a
  partial function: \<open>None\<close> is a run that never leaves the loop.
\<close>

partial_function (option) for_unsigned ::
  "(nat \<Rightarrow> machine \<Rightarrow> machine) \<Rightarrow> 64 word \<Rightarrow> 32 word \<Rightarrow> machine \<Rightarrow> unit result option" where
  "for_unsigned body bound i m =
     (if (ucast i :: 64 word) < bound
      then for_unsigned body bound (i + 1) (body (unat i) m)
      else succeed () m)"

text \<open>
  The wait \<^verbatim>\<open>while (afu.read(MMIO_DONE) == 0) { sleep }\<close>; \<open>k\<close> counts the reads.
\<close>

partial_function (option) wait_done ::
  "config \<Rightarrow> driver \<Rightarrow> nat \<Rightarrow> machine \<Rightarrow> unit result option" where
  "wait_done cfg drv k m =
     (case AFU_read drv k MMIO_DONE m of
        None \<Rightarrow> None
      | Some (Inl x) \<Rightarrow> Some (Inl x)
      | Some (Inr (v, m')) \<Rightarrow>
          if v = 0 then wait_done cfg drv (Suc k) (sleep_for cfg m')
          else succeed () m')"

subsection \<open>The transfer size\<close>

text \<open>
  Modelled from the spec: \<^verbatim>\<open>AFU::CL_BYTES\<close> is declared in \<^verbatim>\<open>AFU.h\<close>, which is not
  among the sources. The spec's cache line is the accelerator's unit of DMA transfer:
  64 bytes on this platform.
\<close>

definition CL_BYTES :: nat where
  "CL_BYTES = 64"

fun bit_length :: "nat \<Rightarrow> nat" where
  "bit_length n = (if n = 0 then 0 else Suc (bit_length (n div 2)))"

declare bit_length.simps [simp del]

text \<open>
  The conversion \<^verbatim>\<open>(float) u\<close> of an \<^verbatim>\<open>unsigned\<close>: the nearest number with a
  significand of 24 bits, ties to the even significand. The result is the value of
  the \<^verbatim>\<open>float\<close>.
\<close>

definition float_of_unsigned :: "32 word \<Rightarrow> rat" where
  "float_of_unsigned u =
     (let n = unat u;
          e = bit_length n - 24;
          q = n div 2 ^ e;
          r = n mod 2 ^ e;
          significand = (if 2 * r < 2 ^ e \<or> (2 * r = 2 ^ e \<and> even q) then q else q + 1)
      in of_nat (significand * 2 ^ e))"

text \<open>
  Lines 91 to 92. \<^verbatim>\<open>sizeof(unsigned long)\<close> is 8; the product is computed in 64 bits and
  stored in an \<^verbatim>\<open>unsigned\<close>. The divisor is the \<^verbatim>\<open>float\<close> 64, a power of two, so the
  quotient of the two \<^verbatim>\<open>float\<close>s has the dividend's significand and is not rounded:
  it is the rational quotient. \<^verbatim>\<open>ceil\<close> is exact, and its value is stored in an
  \<^verbatim>\<open>unsigned\<close>.
\<close>

definition num_cls :: "64 word \<Rightarrow> 32 word" where
  "num_cls num_inputs =
     (let total_bytes = (ucast (num_inputs * 8) :: 32 word)
      in word_of_int \<lceil>float_of_unsigned total_bytes / float_of_unsigned (of_nat CL_BYTES)\<rceil>)"

subsection \<open>\<^verbatim>\<open>main\<close>\<close>

definition EXIT_SUCCESS :: nat where
  "EXIT_SUCCESS = 0"

definition EXIT_FAILURE :: nat where
  "EXIT_FAILURE = 1"

definition endl :: string where
  "endl = [CHR 0x0A]"

definition printUsage :: "string \<Rightarrow> event" where
  "printUsage name =
     Cout (''Usage: '' @ name @ '' size num_tests'' @ endl @
           ''size (positive integer for number of inputs to test, must be multiple of 128)'' @
           endl @ endl)"

text \<open>
  The body of the \<^verbatim>\<open>try\<close> block, lines 61 to 114. In the statement of lines 67 to 68
  the operands of \<^verbatim>\<open><<\<close> are sequenced from left to right (C++17): the text before
  the frequency is written to \<^verbatim>\<open>cout\<close>, then \<^verbatim>\<open>measureClock\<close> is called, then the
  frequency and the rest of the line are written. \<open>Cout_clock hz\<close> is the frequency
  \<open>hz\<close> as it is printed, divided by \<^verbatim>\<open>1e6\<close>.
\<close>

definition try_block ::
  "config \<Rightarrow> driver \<Rightarrow> 64 word \<Rightarrow> 64 word \<Rightarrow> machine \<Rightarrow> unit result option" where
  "try_block cfg drv num_inputs num_outputs =
     and_then (AFU_construct drv (AFU_ACCEL_UUID cfg)) (\<lambda>_.
     and_then (cout (Cout ''Measured AFU Clock Frequency: '')) (\<lambda>_.
     and_then (AFU_measureClock drv) (\<lambda>hz.
     and_then (cout (Cout_clock hz)) (\<lambda>_.
     and_then (cout (Cout (''MHz'' @ endl))) (\<lambda>_.
     and_then (AFU_malloc drv Input num_inputs) (\<lambda>input.
     and_then (AFU_malloc drv Output num_outputs) (\<lambda>output.
     and_then (for_unsigned (\<lambda>i. store Input i 1) num_inputs 0) (\<lambda>_.
     and_then (for_unsigned (\<lambda>i. store Output i 0) num_outputs 0) (\<lambda>_.
     and_then (AFU_write drv MMIO_RD_ADDR input) (\<lambda>_.
     and_then (AFU_write drv MMIO_WR_ADDR output) (\<lambda>_.
     and_then (AFU_write drv MMIO_SIZE (ucast (num_cls num_inputs))) (\<lambda>_.
     and_then (AFU_write drv MMIO_GO 1) (\<lambda>_.
     and_then (wait_done cfg drv 0) (\<lambda>_.
     and_then (for_unsigned (print_output drv) num_outputs 0) (\<lambda>_.
     and_then (AFU_free drv Input) (\<lambda>_.
     and_then (AFU_free drv Output) (\<lambda>_.
     cout (Cout (''All DMA Tests Successful!!!'' @ endl)))))))))))))))))))"

text \<open>The three \<^verbatim>\<open>catch\<close> clauses, lines 118 to 138: what is written to \<^verbatim>\<open>cerr\<close>.\<close>

definition catch :: "config \<Rightarrow> driver \<Rightarrow> exn \<Rightarrow> event" where
  "catch cfg drv e =
     (case e of
        Fpga_result r \<Rightarrow>
          if r = FPGA_BUSY then Cerr (''ERROR: All FPGAs busy.'' @ endl)
          else if r = FPGA_NOT_FOUND then
            Cerr (''ERROR: FPGA with accelerator '' @ AFU_ACCEL_UUID cfg @ '' not found.'' @ endl)
          else Cerr (''ERROR: '' @ fpgaErrStr drv r @ endl)
      | Runtime_error what \<Rightarrow> Cerr (what @ endl)
      | No_driver \<Rightarrow> Cerr (''ERROR: No FPGA driver found.'' @ endl))"

text \<open>
  A process is started with its name and its positional arguments: \<^verbatim>\<open>argv\<close> is the name
  followed by the arguments and \<^verbatim>\<open>argc\<close> is its length. The result is the exit status
  and the trace of the run, and \<open>None\<close> when the run does not terminate.
\<close>

definition main :: "string \<Rightarrow> string list \<Rightarrow> config \<Rightarrow> driver \<Rightarrow> (nat \<times> event list) option" where
  "main name args cfg drv =
     (let argv = name # args;
          argc = length argv;
          start = \<lparr>mem = shared_memory drv, trace = []\<rparr>
      in case checkUsage argc argv of
           None \<Rightarrow> Some (EXIT_FAILURE, trace (log (printUsage (argv ! 0)) start))
         | Some num_inputs \<Rightarrow>
             (let num_outputs = num_inputs div 16
              in case try_block cfg drv num_inputs num_outputs start of
                   None \<Rightarrow> None
                 | Some (Inr (_, m)) \<Rightarrow> Some (EXIT_SUCCESS, trace m)
                 | Some (Inl (e, m)) \<Rightarrow> Some (EXIT_FAILURE, trace (log (catch cfg drv e) m))))"

subsection \<open>Traces of runs\<close>

text \<open>
  The events of one unsuccessful poll, and the machine after \<open>n\<close> of them.
\<close>

definition poll_events :: "config \<Rightarrow> event list" where
  "poll_events cfg =
     MMIO_read MMIO_DONE # (if SLEEP_WHILE_WAITING cfg then [Sleep (SLEEP_MS cfg)] else [])"

definition polled :: "config \<Rightarrow> nat \<Rightarrow> machine \<Rightarrow> machine" where
  "polled cfg n m = m\<lparr>trace := trace m @ concat (replicate n (poll_events cfg))\<rparr>"

text \<open>
  The trace of a run that reaches \<^verbatim>\<open>return EXIT_SUCCESS\<close>, in its five parts: \<open>hz\<close> is
  the measured clock, \<open>a_in\<close> and \<open>a_out\<close> are the buffers' addresses, \<open>k\<close> is the
  number of polls that read 0.
\<close>

definition setup_events :: "config \<Rightarrow> 64 word \<Rightarrow> 64 word \<Rightarrow> nat \<Rightarrow> event list" where
  "setup_events cfg n no hz =
     [Call_AFU (AFU_ACCEL_UUID cfg), Cout ''Measured AFU Clock Frequency: '',
      Call_measureClock, Cout_clock hz, Cout (''MHz'' @ endl),
      Call_malloc Input n, Call_malloc Output no] @
     map (\<lambda>i. Store Input i 1) [0..<unat n] @ map (\<lambda>i. Store Output i 0) [0..<unat no]"

definition go_events :: "64 word \<Rightarrow> 64 word \<Rightarrow> 64 word \<Rightarrow> event list" where
  "go_events n a_in a_out =
     [MMIO_write MMIO_RD_ADDR a_in, MMIO_write MMIO_WR_ADDR a_out,
      MMIO_write MMIO_SIZE (ucast (num_cls n)), MMIO_write MMIO_GO 1]"

definition wait_events :: "config \<Rightarrow> nat \<Rightarrow> event list" where
  "wait_events cfg k = concat (replicate k (poll_events cfg)) @ [MMIO_read MMIO_DONE]"

definition initialised :: "driver \<Rightarrow> 64 word \<Rightarrow> 64 word \<Rightarrow> buffer \<Rightarrow> nat \<Rightarrow> 64 word" where
  "initialised drv n no =
     (shared_memory drv)
       (Input := (\<lambda>i. if i < unat n then 1 else shared_memory drv Input i),
        Output := (\<lambda>i. if i < unat no then 0 else shared_memory drv Output i))"

text \<open>The register accesses of the run before the first output is loaded.\<close>

definition mmio_events :: "64 word \<Rightarrow> 64 word \<Rightarrow> 64 word \<Rightarrow> nat \<Rightarrow> event list" where
  "mmio_events n a_in a_out k =
     go_events n a_in a_out @ replicate k (MMIO_read MMIO_DONE) @ [MMIO_read MMIO_DONE]"

definition print_events ::
  "driver \<Rightarrow> 64 word \<Rightarrow> 64 word \<Rightarrow> 64 word \<Rightarrow> 64 word \<Rightarrow> nat \<Rightarrow> event list" where
  "print_events drv n no a_in a_out k =
     concat (map (\<lambda>i. [Load Output i,
                        Cout_value (accelerator drv (mmio_events n a_in a_out k)
                                                    (initialised drv n no) i)])
                 [0..<unat no])"

definition finish_events :: "event list" where
  "finish_events =
     [Call_free Input, Call_free Output, Cout (''All DMA Tests Successful!!!'' @ endl)]"

definition run_trace ::
  "config \<Rightarrow> driver \<Rightarrow> 64 word \<Rightarrow> nat \<Rightarrow> 64 word \<Rightarrow> 64 word \<Rightarrow> nat \<Rightarrow> event list" where
  "run_trace cfg drv n hz a_in a_out k =
     setup_events cfg n (n div 16) hz @ go_events n a_in a_out @ wait_events cfg k @
     print_events drv n (n div 16) a_in a_out k @ finish_events"

text \<open>
  The answers of the driver on such a run: no call throws, both counts fit the loops'
  32-bit counter, and the done flag reads 0 for \<open>k\<close> polls and then not 0.
\<close>

definition cooperative ::
  "config \<Rightarrow> driver \<Rightarrow> 64 word \<Rightarrow> 64 word \<Rightarrow> nat \<Rightarrow> 64 word \<Rightarrow> 64 word \<Rightarrow> nat \<Rightarrow> bool" where
  "cooperative cfg drv n no hz a_in a_out k \<longleftrightarrow>
     afu_open drv (AFU_ACCEL_UUID cfg) = None \<and> afu_clock drv = Inr hz \<and>
     afu_alloc drv Input n = Inr a_in \<and> afu_alloc drv Output no = Inr a_out \<and>
     unat n < 2 ^ 32 \<and> unat no < 2 ^ 32 \<and>
     afu_mmio_write drv MMIO_RD_ADDR a_in = None \<and>
     afu_mmio_write drv MMIO_WR_ADDR a_out = None \<and>
     afu_mmio_write drv MMIO_SIZE (ucast (num_cls n)) = None \<and>
     afu_mmio_write drv MMIO_GO 1 = None \<and>
     (\<forall>j<k. afu_mmio_read drv j MMIO_DONE = Inr 0) \<and>
     (\<exists>v. afu_mmio_read drv k MMIO_DONE = Inr v \<and> v \<noteq> 0) \<and>
     afu_release drv Input = None \<and> afu_release drv Output = None"


subsection \<open>Reading a trace\<close>

definition is_output_load :: "event \<Rightarrow> bool" where
  "is_output_load e = (case e of Load b i \<Rightarrow> b = Output | _ \<Rightarrow> False)"

definition is_malloc :: "buffer \<Rightarrow> event \<Rightarrow> bool" where
  "is_malloc b e = (case e of Call_malloc b' c \<Rightarrow> b' = b | _ \<Rightarrow> False)"

definition is_store :: "buffer \<Rightarrow> event \<Rightarrow> bool" where
  "is_store b e = (case e of Store b' i v \<Rightarrow> b' = b | _ \<Rightarrow> False)"

definition is_value :: "event \<Rightarrow> bool" where
  "is_value e = (case e of Cout_value v \<Rightarrow> True | _ \<Rightarrow> False)"

text \<open>
  The control operations: register accesses, reads of the shared buffers, and the
  release of a buffer.
\<close>

definition is_control :: "event \<Rightarrow> bool" where
  "is_control e =
     (case e of MMIO_write r v \<Rightarrow> True | MMIO_read r \<Rightarrow> True | Load b i \<Rightarrow> True
      | Call_free b \<Rightarrow> True | _ \<Rightarrow> False)"

text \<open>The content of the buffers after the stores of a trace, from a given content.\<close>

fun replay :: "event list \<Rightarrow> (buffer \<Rightarrow> nat \<Rightarrow> 64 word) \<Rightarrow> buffer \<Rightarrow> nat \<Rightarrow> 64 word" where
  "replay [] memory = memory"
| "replay (e # es) memory =
     replay es (case e of Store b i v \<Rightarrow> memory(b := (memory b)(i := v)) | _ \<Rightarrow> memory)"

subsection \<open>The accelerator\<close>

text \<open>\<open>written r mmio\<close> is the value last written to the register \<open>r\<close>.\<close>

fun written :: "mmio_reg \<Rightarrow> event list \<Rightarrow> 64 word option" where
  "written r [] = None"
| "written r (e # es) =
     (case written r es of
        Some v \<Rightarrow> Some v
      | None \<Rightarrow> (case e of MMIO_write r' v \<Rightarrow> if r' = r then Some v else None | _ \<Rightarrow> None))"

text \<open>
  Modelled from the spec: the accelerator's pipeline is hardware description code of this
  repository that is not among the sources. By the spec's register protocol the
  software writes the input buffer's address, the output buffer's address and the
  transfer size in cache lines, writes the start trigger, and polls the done flag; the
  buffers hold 64-bit integers, so a cache line holds \<open>CL_BYTES div 8\<close> of them.
  \<open>transferred a_in a_out mmio\<close> is the number of inputs that the accelerator has
  transferred when the input buffer is at \<open>a_in\<close> and the output buffer at \<open>a_out\<close>:
  the cache lines of the size written, when the accelerator was started by the write
  of 1 to \<^verbatim>\<open>MMIO_GO\<close> with these two addresses in its registers and the software has
  since only read the done flag, at least once (the wait ends with the read that is
  not 0); and none otherwise.
\<close>

definition transferred :: "64 word \<Rightarrow> 64 word \<Rightarrow> event list \<Rightarrow> nat" where
  "transferred a_in a_out mmio =
     (let setup = takeWhile (\<lambda>e. e \<noteq> MMIO_write MMIO_GO 1) mmio;
          polls = drop (Suc (length setup)) mmio
      in if polls \<noteq> [] \<and> list_all (\<lambda>e. e = MMIO_read MMIO_DONE) polls \<and>
            written MMIO_RD_ADDR setup = Some a_in \<and> written MMIO_WR_ADDR setup = Some a_out
         then (case written MMIO_SIZE setup of
                 Some cls \<Rightarrow> unat cls * (CL_BYTES div 8)
               | None \<Rightarrow> 0)
         else 0)"

text \<open>
  Modelled from the spec: by the spec each output is the aggregation of sixteen inputs,
  and sixteen inputs of value 1 give 16. Output \<open>j\<close> is the sum of the inputs \<open>16 j\<close> to
  \<open>16 j + 15\<close> once these were transferred; an output whose inputs were not transferred
  holds what the software stored there.
\<close>

definition simple_pipeline ::
  "64 word \<Rightarrow> 64 word \<Rightarrow> event list \<Rightarrow> (buffer \<Rightarrow> nat \<Rightarrow> 64 word) \<Rightarrow> nat \<Rightarrow> 64 word" where
  "simple_pipeline a_in a_out mmio memory j =
     (if 16 * j + 16 \<le> transferred a_in a_out mmio
      then sum_list (map (memory Input) [16 * j..<16 * j + 16])
      else memory Output j)"

subsection \<open>Example drivers\<close>

text \<open>
  A configuration that sleeps 10 ms between polls; a driver that answers every call,
  puts the buffers at the addresses 4096 and 8192, raises the done flag at the third
  read and has the accelerator \<open>simple_pipeline\<close> at these addresses; one whose
  accelerators are all busy; and one whose done flag stays 0.
\<close>

definition example_config :: config where
  "example_config =
     \<lparr>AFU_ACCEL_UUID = ''simple_pipeline'', SLEEP_WHILE_WAITING = True, SLEEP_MS = 10\<rparr>"

definition example_driver :: driver where
  "example_driver =
     \<lparr>afu_open = (\<lambda>uuid. None),
      afu_clock = Inr 200000000,
      afu_alloc = (\<lambda>b elements. Inr (case b of Input \<Rightarrow> 4096 | Output \<Rightarrow> 8192)),
      afu_mmio_write = (\<lambda>addr data. None),
      afu_mmio_read = (\<lambda>k addr. Inr (if k < 2 then 0 else 1)),
      afu_release = (\<lambda>b. None),
      fpgaErrStr = (\<lambda>r. ''driver error''),
      shared_memory = (\<lambda>b i. 0),
      accelerator = simple_pipeline 4096 8192\<rparr>"


definition stalled_driver :: driver where
  "stalled_driver = example_driver\<lparr>afu_mmio_read := (\<lambda>k addr. Inr 0)\<rparr>"

section \<open>Properties\<close>

subsection \<open>The counting loops\<close>

lemma unat32_less: "unat (i :: 32 word) < 2 ^ 32"
  using unsigned_less[of i, where 'a=nat] by simp

lemma unat_ucast_32_64: "unat (ucast (i :: 32 word) :: 64 word) = unat i"
  using unat32_less[of i] by (simp add: unsigned_ucast_eq take_bit_nat_eq_self_iff)

lemma ucast_less_bound: "(ucast (i :: 32 word) :: 64 word) < bound \<longleftrightarrow> unat i < unat bound"
  by (simp add: word_less_nat_alt unat_ucast_32_64)

lemma for_unsigned_diverges:
  assumes "2 ^ 32 \<le> unat bound"
  shows "for_unsigned body bound i m = None"
proof (rule ccontr)
  assume "for_unsigned body bound i m \<noteq> None"
  then obtain r where r: "for_unsigned body bound i m = Some r" by auto
  have "unat bound < 2 ^ 32"
    using r
  proof (induction rule: for_unsigned.raw_induct[rotated 1, consumes 1])
    case (1 f body' bound' i' m' r')
    show ?case
    proof (cases "(ucast i' :: 64 word) < bound'")
      case True
      with 1 show ?thesis by auto
    next
      case False
      have "unat i' < 2 ^ 32" by (rule unat32_less)
      with False show ?thesis by (simp add: ucast_less_bound)
    qed
  qed
  with assms show False by simp
qed

lemma for_unsigned_terminates:
  assumes "unat bound < 2 ^ 32" "unat i \<le> unat bound"
  shows "for_unsigned body bound i m = succeed () (fold body [unat i..<unat bound] m)"
  using assms
proof (induction "unat bound - unat i" arbitrary: i m)
  case 0
  then have "unat i = unat bound" by simp
  then show ?case
    by (subst for_unsigned.simps) (simp add: ucast_less_bound)
next
  case (Suc d)
  then have lt: "unat i < unat bound" by simp
  have "unat (i + 1) = Suc (unat i)"
    using lt Suc.prems(1) by (simp add: unat_word_ariths)
  with Suc lt have "for_unsigned body bound (i + 1) (body (unat i) m) =
      succeed () (fold body [Suc (unat i)..<unat bound] (body (unat i) m))"
    by (metis Suc_leI diff_Suc nat.simps(5))
  with lt show ?case
    by (subst for_unsigned.simps) (simp add: ucast_less_bound upt_conv_Cons)
qed

subsection \<open>The wait\<close>

lemma trace_log [simp]: "trace (log e m) = trace m @ [e]"
  by (simp add: log_def)

lemma mem_log [simp]: "mem (log e m) = mem m"
  by (simp add: log_def)

lemma polled_0 [simp]: "polled cfg 0 m = m"
  by (simp add: polled_def)

lemma sleep_for_log: "sleep_for cfg (log (MMIO_read MMIO_DONE) m) = polled cfg 1 m"
  by (simp add: sleep_for_def log_def polled_def poll_events_def)

lemma polled_polled: "polled cfg a (polled cfg b m) = polled cfg (b + a) m"
  by (simp add: polled_def replicate_add)

lemma trace_polled [simp]: "trace (polled cfg n m) = trace m @ concat (replicate n (poll_events cfg))"
  by (simp add: polled_def)

lemma mem_polled [simp]: "mem (polled cfg n m) = mem m"
  by (simp add: polled_def)

lemma wait_done_zero:
  "afu_mmio_read drv k MMIO_DONE = Inr 0 \<Longrightarrow>
   wait_done cfg drv k m = wait_done cfg drv (Suc k) (polled cfg 1 m)"
  by (subst wait_done.simps) (simp add: AFU_read_def succeed_def sleep_for_log)

lemma wait_done_nonzero:
  "afu_mmio_read drv k MMIO_DONE = Inr v \<Longrightarrow> v \<noteq> 0 \<Longrightarrow>
   wait_done cfg drv k m = succeed () (log (MMIO_read MMIO_DONE) m)"
  by (subst wait_done.simps) (simp add: AFU_read_def succeed_def)

lemma wait_done_throw:
  "afu_mmio_read drv k MMIO_DONE = Inl e \<Longrightarrow>
   wait_done cfg drv k m = throw e (log (MMIO_read MMIO_DONE) m)"
  by (subst wait_done.simps) (simp add: AFU_read_def throw_def)

lemma wait_done_zeros:
  "(\<forall>j<n. afu_mmio_read drv (k + j) MMIO_DONE = Inr 0) \<Longrightarrow>
   wait_done cfg drv k m = wait_done cfg drv (k + n) (polled cfg n m)"
proof (induction n arbitrary: k m)
  case 0
  then show ?case by simp
next
  case (Suc n)
  from Suc.prems have z: "afu_mmio_read drv k MMIO_DONE = Inr 0"
    by (metis add.right_neutral zero_less_Suc)
  from Suc.prems have "\<forall>j<n. afu_mmio_read drv (Suc k + j) MMIO_DONE = Inr 0"
    by (metis Suc_less_eq add_Suc_shift)
  then have "wait_done cfg drv (Suc k) (polled cfg 1 m) =
      wait_done cfg drv (Suc k + n) (polled cfg n (polled cfg 1 m))"
    by (rule Suc.IH)
  with z show ?case
    by (simp add: wait_done_zero polled_polled)
qed

lemma wait_done_Some:
  assumes "wait_done cfg drv k m = Some r"
  shows "\<exists>n. (\<forall>j<n. afu_mmio_read drv (k + j) MMIO_DONE = Inr 0) \<and>
             afu_mmio_read drv (k + n) MMIO_DONE \<noteq> Inr 0"
  using assms
proof (induction rule: wait_done.raw_induct[rotated 1, consumes 1])
  case (1 f cfg' drv' k' m' r')
  show ?case
  proof (cases "afu_mmio_read drv' k' MMIO_DONE = Inr 0")
    case True
    with 1(2) have "f cfg' drv' (Suc k') (sleep_for cfg' (log (MMIO_read MMIO_DONE) m')) = Some r'"
      by (simp add: AFU_read_def succeed_def)
    from 1(1)[OF this] obtain n where
      n: "\<forall>j<n. afu_mmio_read drv' (Suc k' + j) MMIO_DONE = Inr 0"
         "afu_mmio_read drv' (Suc k' + n) MMIO_DONE \<noteq> Inr 0"
      by blast
    have "\<forall>j<Suc n. afu_mmio_read drv' (k' + j) MMIO_DONE = Inr 0"
    proof (intro allI impI)
      fix j assume "j < Suc n"
      then show "afu_mmio_read drv' (k' + j) MMIO_DONE = Inr 0"
        using True n(1) by (cases j) auto
    qed
    moreover have "afu_mmio_read drv' (k' + Suc n) MMIO_DONE \<noteq> Inr 0"
      using n(2) by simp
    ultimately show ?thesis by blast
  next
    case False
    then show ?thesis by (intro exI[of _ 0]) simp
  qed
qed

lemma wait_done_None_iff:
  "wait_done cfg drv k m = None \<longleftrightarrow> (\<forall>j. afu_mmio_read drv (k + j) MMIO_DONE = Inr 0)"
proof
  assume none: "wait_done cfg drv k m = None"
  show "\<forall>j. afu_mmio_read drv (k + j) MMIO_DONE = Inr 0"
  proof (rule ccontr)
    assume "\<not> (\<forall>j. afu_mmio_read drv (k + j) MMIO_DONE = Inr 0)"
    then obtain j where j: "afu_mmio_read drv (k + j) MMIO_DONE \<noteq> Inr 0" by blast
    define n where "n = (LEAST j. afu_mmio_read drv (k + j) MMIO_DONE \<noteq> Inr 0)"
    have n: "afu_mmio_read drv (k + n) MMIO_DONE \<noteq> Inr 0"
      unfolding n_def using j by (rule LeastI)
    have z: "\<forall>i<n. afu_mmio_read drv (k + i) MMIO_DONE = Inr 0"
      unfolding n_def using not_less_Least by blast
    have "wait_done cfg drv k m = wait_done cfg drv (k + n) (polled cfg n m)"
      using z by (rule wait_done_zeros)
    moreover have "wait_done cfg drv (k + n) (polled cfg n m) \<noteq> None"
    proof (cases "afu_mmio_read drv (k + n) MMIO_DONE")
      case (Inl e)
      then show ?thesis by (simp add: wait_done_throw throw_def)
    next
      case (Inr v)
      with n have "v \<noteq> 0" by auto
      with Inr show ?thesis by (simp add: wait_done_nonzero succeed_def)
    qed
    ultimately show False using none by simp
  qed
next
  assume "\<forall>j. afu_mmio_read drv (k + j) MMIO_DONE = Inr 0"
  then show "wait_done cfg drv k m = None"
    using wait_done_Some[of cfg drv k m] by (cases "wait_done cfg drv k m") auto
qed

subsection \<open>Results of the statements\<close>

lemma for_unsigned_Inr_iff:
  "for_unsigned body bound 0 m = Some (Inr (u, m')) \<longleftrightarrow>
   unat bound < 2 ^ 32 \<and> m' = fold body [0..<unat bound] m"
proof (cases "unat bound < 2 ^ 32")
  case True
  then show ?thesis
    using for_unsigned_terminates[of bound 0 body m] by (auto simp: succeed_def)
next
  case False
  then show ?thesis
    using for_unsigned_diverges[of bound body 0 m] by simp
qed

lemma for_unsigned_not_Inl: "for_unsigned body bound 0 m \<noteq> Some (Inl x)"
proof (cases "unat bound < 2 ^ 32")
  case True
  then show ?thesis
    using for_unsigned_terminates[of bound 0 body m] by (auto simp: succeed_def)
next
  case False
  then show ?thesis
    using for_unsigned_diverges[of bound body 0 m] by simp
qed

lemma wait_done_Inr_iff:
  "wait_done cfg drv k m = Some (Inr (u, m')) \<longleftrightarrow>
   (\<exists>n v. (\<forall>j<n. afu_mmio_read drv (k + j) MMIO_DONE = Inr 0) \<and>
          afu_mmio_read drv (k + n) MMIO_DONE = Inr v \<and> v \<noteq> 0 \<and>
          m' = log (MMIO_read MMIO_DONE) (polled cfg n m))"
proof
  assume r: "wait_done cfg drv k m = Some (Inr (u, m'))"
  from wait_done_Some[OF r] obtain n where
    z: "\<forall>j<n. afu_mmio_read drv (k + j) MMIO_DONE = Inr 0" and
    nz: "afu_mmio_read drv (k + n) MMIO_DONE \<noteq> Inr 0" by blast
  from z have eq: "wait_done cfg drv k m = wait_done cfg drv (k + n) (polled cfg n m)"
    by (rule wait_done_zeros)
  show "\<exists>n v. (\<forall>j<n. afu_mmio_read drv (k + j) MMIO_DONE = Inr 0) \<and>
          afu_mmio_read drv (k + n) MMIO_DONE = Inr v \<and> v \<noteq> 0 \<and>
          m' = log (MMIO_read MMIO_DONE) (polled cfg n m)"
  proof (cases "afu_mmio_read drv (k + n) MMIO_DONE")
    case (Inl e)
    with r eq show ?thesis by (simp add: wait_done_throw throw_def)
  next
    case (Inr v)
    with nz have "v \<noteq> 0" by auto
    with r eq Inr z show ?thesis by (auto simp: wait_done_nonzero succeed_def)
  qed
next
  assume "\<exists>n v. (\<forall>j<n. afu_mmio_read drv (k + j) MMIO_DONE = Inr 0) \<and>
          afu_mmio_read drv (k + n) MMIO_DONE = Inr v \<and> v \<noteq> 0 \<and>
          m' = log (MMIO_read MMIO_DONE) (polled cfg n m)"
  then obtain n v where z: "\<forall>j<n. afu_mmio_read drv (k + j) MMIO_DONE = Inr 0"
    and v: "afu_mmio_read drv (k + n) MMIO_DONE = Inr v" "v \<noteq> 0"
    and m': "m' = log (MMIO_read MMIO_DONE) (polled cfg n m)" by blast
  from z have "wait_done cfg drv k m = wait_done cfg drv (k + n) (polled cfg n m)"
    by (rule wait_done_zeros)
  with v m' show "wait_done cfg drv k m = Some (Inr (u, m'))"
    by (simp add: wait_done_nonzero succeed_def)
qed

lemma wait_done_Inl_iff:
  "wait_done cfg drv k m = Some (Inl (e, m')) \<longleftrightarrow>
   (\<exists>n. (\<forall>j<n. afu_mmio_read drv (k + j) MMIO_DONE = Inr 0) \<and>
        afu_mmio_read drv (k + n) MMIO_DONE = Inl e \<and>
        m' = log (Throw e) (log (MMIO_read MMIO_DONE) (polled cfg n m)))"
proof
  assume r: "wait_done cfg drv k m = Some (Inl (e, m'))"
  from wait_done_Some[OF r] obtain n where
    z: "\<forall>j<n. afu_mmio_read drv (k + j) MMIO_DONE = Inr 0" and
    nz: "afu_mmio_read drv (k + n) MMIO_DONE \<noteq> Inr 0" by blast
  from z have eq: "wait_done cfg drv k m = wait_done cfg drv (k + n) (polled cfg n m)"
    by (rule wait_done_zeros)
  show "\<exists>n. (\<forall>j<n. afu_mmio_read drv (k + j) MMIO_DONE = Inr 0) \<and>
        afu_mmio_read drv (k + n) MMIO_DONE = Inl e \<and>
        m' = log (Throw e) (log (MMIO_read MMIO_DONE) (polled cfg n m))"
  proof (cases "afu_mmio_read drv (k + n) MMIO_DONE")
    case (Inl e')
    with r eq z show ?thesis by (auto simp: wait_done_throw throw_def)
  next
    case (Inr v)
    with nz have "v \<noteq> 0" by auto
    with r eq Inr show ?thesis by (simp add: wait_done_nonzero succeed_def)
  qed
next
  assume "\<exists>n. (\<forall>j<n. afu_mmio_read drv (k + j) MMIO_DONE = Inr 0) \<and>
        afu_mmio_read drv (k + n) MMIO_DONE = Inl e \<and>
        m' = log (Throw e) (log (MMIO_read MMIO_DONE) (polled cfg n m))"
  then obtain n where z: "\<forall>j<n. afu_mmio_read drv (k + j) MMIO_DONE = Inr 0"
    and e: "afu_mmio_read drv (k + n) MMIO_DONE = Inl e"
    and m': "m' = log (Throw e) (log (MMIO_read MMIO_DONE) (polled cfg n m))" by blast
  from z have "wait_done cfg drv k m = wait_done cfg drv (k + n) (polled cfg n m)"
    by (rule wait_done_zeros)
  with e m' show "wait_done cfg drv k m = Some (Inl (e, m'))"
    by (simp add: wait_done_throw throw_def)
qed

lemma and_then_Inr_iff:
  "and_then f g m = Some (Inr (x, m'')) \<longleftrightarrow>
   (\<exists>a m'. f m = Some (Inr (a, m')) \<and> g a m' = Some (Inr (x, m'')))"
  by (auto simp: and_then_def split: option.splits sum.splits)

lemma and_then_Inl_iff:
  "and_then f g m = Some (Inl (e, m'')) \<longleftrightarrow>
   f m = Some (Inl (e, m'')) \<or>
   (\<exists>a m'. f m = Some (Inr (a, m')) \<and> g a m' = Some (Inl (e, m'')))"
  by (auto simp: and_then_def split: option.splits sum.splits)

lemma AFU_construct_Inr_iff:
  "AFU_construct drv uuid m = Some (Inr (u, m')) \<longleftrightarrow>
   afu_open drv uuid = None \<and> m' = log (Call_AFU uuid) m"
  by (auto simp: AFU_construct_def Let_def succeed_def throw_def split: option.splits)

lemma AFU_construct_Inl_iff:
  "AFU_construct drv uuid m = Some (Inl (e, m')) \<longleftrightarrow>
   afu_open drv uuid = Some e \<and> m' = log (Throw e) (log (Call_AFU uuid) m)"
  by (auto simp: AFU_construct_def Let_def succeed_def throw_def split: option.splits)

lemma AFU_measureClock_Inr_iff:
  "AFU_measureClock drv m = Some (Inr (hz, m')) \<longleftrightarrow>
   afu_clock drv = Inr hz \<and> m' = log Call_measureClock m"
  by (auto simp: AFU_measureClock_def Let_def succeed_def throw_def split: sum.splits)

lemma AFU_measureClock_Inl_iff:
  "AFU_measureClock drv m = Some (Inl (e, m')) \<longleftrightarrow>
   afu_clock drv = Inl e \<and> m' = log (Throw e) (log Call_measureClock m)"
  by (auto simp: AFU_measureClock_def Let_def succeed_def throw_def split: sum.splits)

lemma AFU_malloc_Inr_iff:
  "AFU_malloc drv b n m = Some (Inr (p, m')) \<longleftrightarrow>
   afu_alloc drv b n = Inr p \<and> m' = log (Call_malloc b n) m"
  by (auto simp: AFU_malloc_def Let_def succeed_def throw_def split: sum.splits)

lemma AFU_malloc_Inl_iff:
  "AFU_malloc drv b n m = Some (Inl (e, m')) \<longleftrightarrow>
   afu_alloc drv b n = Inl e \<and> m' = log (Throw e) (log (Call_malloc b n) m)"
  by (auto simp: AFU_malloc_def Let_def succeed_def throw_def split: sum.splits)

lemma AFU_write_Inr_iff:
  "AFU_write drv r v m = Some (Inr (u, m')) \<longleftrightarrow>
   afu_mmio_write drv r v = None \<and> m' = log (MMIO_write r v) m"
  by (auto simp: AFU_write_def Let_def succeed_def throw_def split: option.splits)

lemma AFU_write_Inl_iff:
  "AFU_write drv r v m = Some (Inl (e, m')) \<longleftrightarrow>
   afu_mmio_write drv r v = Some e \<and> m' = log (Throw e) (log (MMIO_write r v) m)"
  by (auto simp: AFU_write_def Let_def succeed_def throw_def split: option.splits)

lemma AFU_free_Inr_iff:
  "AFU_free drv b m = Some (Inr (u, m')) \<longleftrightarrow>
   afu_release drv b = None \<and> m' = log (Call_free b) m"
  by (auto simp: AFU_free_def Let_def succeed_def throw_def split: option.splits)

lemma AFU_free_Inl_iff:
  "AFU_free drv b m = Some (Inl (e, m')) \<longleftrightarrow>
   afu_release drv b = Some e \<and> m' = log (Throw e) (log (Call_free b) m)"
  by (auto simp: AFU_free_def Let_def succeed_def throw_def split: option.splits)

lemma cout_Inr_iff: "cout e m = Some (Inr (u, m')) \<longleftrightarrow> m' = log e m"
  by (auto simp: cout_def succeed_def)

lemma cout_not_Inl: "cout e m \<noteq> Some (Inl x)"
  by (simp add: cout_def succeed_def)

lemmas run_iffs =
  and_then_Inr_iff and_then_Inl_iff AFU_construct_Inr_iff AFU_construct_Inl_iff
  AFU_measureClock_Inr_iff AFU_measureClock_Inl_iff AFU_malloc_Inr_iff AFU_malloc_Inl_iff
  AFU_write_Inr_iff AFU_write_Inl_iff AFU_free_Inr_iff AFU_free_Inl_iff
  cout_Inr_iff cout_not_Inl for_unsigned_Inr_iff for_unsigned_not_Inl
  wait_done_Inr_iff wait_done_Inl_iff

lemma trace_fold_store:
  "trace (fold (\<lambda>i. store b i v) xs m) = trace m @ map (\<lambda>i. Store b i v) xs"
  by (induction xs arbitrary: m) (simp_all add: store_def)

lemma mem_fold_store:
  "mem (fold (\<lambda>i. store b i v) [0..<n] m) =
   (mem m)(b := (\<lambda>i. if i < n then v else mem m b i))"
proof (induction n)
  case 0
  then show ?case by simp
next
  case (Suc n)
  then show ?case
    by (auto simp: store_def fun_eq_iff)
qed

lemma mem_print_output [simp]: "mem (print_output drv i m) = mem m"
  by (simp add: print_output_def)

lemma mem_fold_print [simp]: "mem (fold (print_output drv) xs m) = mem m"
  by (induction xs arbitrary: m) simp_all

lemma mmio_print_output [simp]:
  "filter is_mmio (trace (print_output drv i m)) = filter is_mmio (trace m)"
  by (simp add: print_output_def is_mmio_def)

lemma trace_fold_print:
  "trace (fold (print_output drv) xs m) =
   trace m @ concat (map (\<lambda>i. [Load Output i,
                        Cout_value (accelerator drv (filter is_mmio (trace m)) (mem m) i)]) xs)"
proof (induction xs arbitrary: m)
  case Nil
  then show ?case by simp
next
  case (Cons x xs)
  have "trace (print_output drv x m) =
      trace m @ [Load Output x,
                 Cout_value (accelerator drv (filter is_mmio (trace m)) (mem m) x)]"
    by (simp add: print_output_def)
  moreover have "trace (fold (print_output drv) xs (print_output drv x m)) =
      trace (print_output drv x m) @
      concat (map (\<lambda>i. [Load Output i,
                Cout_value (accelerator drv (filter is_mmio (trace m)) (mem m) i)]) xs)"
    using Cons[of "print_output drv x m"] by (simp only: mmio_print_output mem_print_output)
  ultimately show ?case by simp
qed

lemma mmio_stores: "filter is_mmio (map (\<lambda>i. Store b i v) xs) = []"
  by (induction xs) (simp_all add: is_mmio_def)

lemma mmio_polls:
  "filter is_mmio (concat (replicate k (poll_events cfg))) = replicate k (MMIO_read MMIO_DONE)"
  by (induction k) (simp_all add: poll_events_def is_mmio_def)

subsection \<open>Runs of the \<^verbatim>\<open>try\<close> block\<close>

lemmas trace_shapes =
  trace_fold_store trace_fold_print mem_fold_store
  setup_events_def go_events_def wait_events_def print_events_def finish_events_def
  initialised_def mmio_events_def mmio_stores mmio_polls is_mmio_def

lemma try_block_InrD:
  assumes "try_block cfg drv n no \<lparr>mem = shared_memory drv, trace = []\<rparr> = Some (Inr (u, m'))"
  shows "\<exists>hz a_in a_out k. cooperative cfg drv n no hz a_in a_out k \<and>
      m' = \<lparr>mem = initialised drv n no,
            trace = setup_events cfg n no hz @ go_events n a_in a_out @ wait_events cfg k @
                    print_events drv n no a_in a_out k @ finish_events\<rparr>"
  using assms unfolding try_block_def
  apply (simp add: run_iffs)
  apply (elim exE conjE)
  subgoal for hz a_in a_out m1 k v
    apply (rule exI[of _ hz], rule exI[of _ a_in], rule exI[of _ a_out], rule exI[of _ k])
    apply (rule conjI)
     apply (simp add: cooperative_def)
    apply (rule machine.equality)
      apply (simp_all add: trace_shapes fun_eq_iff cong: if_cong)
    done
  done

lemma for_unsigned_0:
  "unat bound < 2 ^ 32 \<Longrightarrow>
   for_unsigned body bound 0 m = Some (Inr ((), fold body [0..<unat bound] m))"
  using for_unsigned_terminates[of bound 0 body m] by (simp add: succeed_def)

lemma wait_done_finish:
  assumes "\<forall>j<k. afu_mmio_read drv j MMIO_DONE = Inr 0"
    and "afu_mmio_read drv k MMIO_DONE = Inr v" and "v \<noteq> 0"
  shows "wait_done cfg drv 0 m = Some (Inr ((), log (MMIO_read MMIO_DONE) (polled cfg k m)))"
  using assms wait_done_Inr_iff[of cfg drv 0 m "()" "log (MMIO_read MMIO_DONE) (polled cfg k m)"]
  by auto

lemma try_block_InrI:
  assumes "cooperative cfg drv n no hz a_in a_out k"
  shows "try_block cfg drv n no \<lparr>mem = shared_memory drv, trace = []\<rparr> =
     Some (Inr ((), \<lparr>mem = initialised drv n no,
            trace = setup_events cfg n no hz @ go_events n a_in a_out @ wait_events cfg k @
                    print_events drv n no a_in a_out k @ finish_events\<rparr>))"
proof -
  from assms obtain v where v: "afu_mmio_read drv k MMIO_DONE = Inr v" "v \<noteq> 0"
    by (auto simp: cooperative_def)
  from assms have z: "\<forall>j<k. afu_mmio_read drv j MMIO_DONE = Inr 0"
    by (simp add: cooperative_def)
  note w = wait_done_finish[OF z v]
  show ?thesis
    using assms unfolding try_block_def cooperative_def
    apply (simp add: and_then_def AFU_construct_def AFU_measureClock_def AFU_malloc_def
        AFU_write_def AFU_free_def cout_def succeed_def Let_def for_unsigned_0 w)
    apply (rule machine.equality)
      apply (simp_all add: trace_shapes fun_eq_iff cong: if_cong)
    done
qed

lemma try_block_InlD:
  assumes "try_block cfg drv n no \<lparr>mem = shared_memory drv, trace = []\<rparr> = Some (Inl (e, m'))"
  shows "(\<forall>x\<in>set (trace m'). \<not> is_output_load x) \<or>
     (\<exists>hz a_in a_out k fin. 
        trace m' = setup_events cfg n no hz @ go_events n a_in a_out @ wait_events cfg k @
                    print_events drv n no a_in a_out k @ fin \<and>
        (\<forall>x\<in>set fin. \<not> is_output_load x \<and> (\<forall>v. x \<noteq> MMIO_write MMIO_GO v)))"
  using assms unfolding try_block_def
  apply (simp add: run_iffs)
  apply (elim exE conjE disjE)
  subgoal by (rule disjI1) (auto simp: trace_shapes is_output_load_def poll_events_def) 
  subgoal by (rule disjI1) (auto simp: trace_shapes is_output_load_def poll_events_def) 
  subgoal by (rule disjI1) (auto simp: trace_shapes is_output_load_def poll_events_def) 
  subgoal by (rule disjI1) (auto simp: trace_shapes is_output_load_def poll_events_def) 
  subgoal by (rule disjI1) (auto simp: trace_shapes is_output_load_def poll_events_def) 
  subgoal by (rule disjI1) (auto simp: trace_shapes is_output_load_def poll_events_def) 
  subgoal by (rule disjI1) (auto simp: trace_shapes is_output_load_def poll_events_def) 
  subgoal by (rule disjI1) (auto simp: trace_shapes is_output_load_def poll_events_def) 
  subgoal by (rule disjI1) (auto simp: trace_shapes is_output_load_def poll_events_def) 
  subgoal for hz a_in a_out m1 k v
    apply (rule disjI2)
    apply (rule exI[of _ hz], rule exI[of _ a_in], rule exI[of _ a_out], rule exI[of _ k])
    apply (rule exI[of _ "[Call_free Input, Throw e]"])
    apply (simp add: trace_shapes is_output_load_def cong: if_cong)
    done
  subgoal for hz a_in a_out m1 k v
    apply (rule disjI2)
    apply (rule exI[of _ hz], rule exI[of _ a_in], rule exI[of _ a_out], rule exI[of _ k])
    apply (rule exI[of _ "[Call_free Input, Call_free Output, Throw e]"])
    apply (simp add: trace_shapes is_output_load_def cong: if_cong)
    done
  done

subsection \<open>Parsing\<close>

lemma strtol_range: "LONG_MIN \<le> fst (strtol s) \<and> fst (strtol s) \<le> LONG_MAX"
  by (simp add: strtol_def Let_def LONG_MIN_def LONG_MAX_def)

lemma uint_word_of_long:
  "0 \<le> v \<Longrightarrow> v \<le> LONG_MAX \<Longrightarrow> uint (word_of_int v :: 64 word) = v"
  by (simp add: LONG_MAX_def uint_word_of_int take_bit_eq_mod)

lemma stringToPositiveInt_Inr_iff:
  "stringToPositiveInt str = Inr v \<longleftrightarrow>
   snd (strtol str) = [] \<and> 0 < fst (strtol str) \<and> v = word_of_int (fst (strtol str))"
  by (auto simp: stringToPositiveInt_def split: prod.splits)

lemma stringToPositiveInt_uint:
  assumes "stringToPositiveInt str = Inr v"
  shows "uint v = fst (strtol str)" and "0 < uint v"
proof -
  from assms have v: "v = word_of_int (fst (strtol str))" and pos: "0 < fst (strtol str)"
    by (simp_all add: stringToPositiveInt_Inr_iff)
  from pos strtol_range[of str] show "uint v = fst (strtol str)"
    unfolding v by (intro uint_word_of_long) simp_all
  with pos show "0 < uint v" by simp
qed

lemma word_mod_128:
  "(v :: 64 word) mod 128 = 0 \<longleftrightarrow> uint v mod 128 = 0"
proof -
  have "v mod 128 = 0 \<longleftrightarrow> uint (v mod 128) = 0"
    by (simp add: uint_0_iff)
  also have "uint (v mod 128) = uint v mod 128"
    by (simp add: uint_mod)
  finally show ?thesis .
qed

lemma unat_div_16: "unat ((v :: 64 word) div 16) = unat v div 16"
  by (simp add: unat_div)

lemma checkUsage_Some_iff:
  "checkUsage argc argv = Some n \<longleftrightarrow>
   argc = 2 \<and> snd (strtol (argv ! 1)) = [] \<and> 0 < fst (strtol (argv ! 1)) \<and>
   fst (strtol (argv ! 1)) mod 128 = 0 \<and> n = word_of_int (fst (strtol (argv ! 1)))"
proof (cases "stringToPositiveInt (argv ! 1)")
  case (Inl w)
  then have "\<not> (snd (strtol (argv ! 1)) = [] \<and> 0 < fst (strtol (argv ! 1)))"
    by (auto simp: stringToPositiveInt_def split: prod.splits if_splits)
  with Inl show ?thesis by (auto simp: checkUsage_def)
next
  case (Inr v)
  note u = stringToPositiveInt_uint[OF Inr]
  from Inr have "snd (strtol (argv ! 1)) = []" "v = word_of_int (fst (strtol (argv ! 1)))"
    by (simp_all add: stringToPositiveInt_Inr_iff)
  with Inr u show ?thesis
    by (auto simp: checkUsage_def word_mod_128)
qed

lemmas parse_eval = strtol_def isspace_def isdigit_def digit_value_def Let_def LONG_MAX_def LONG_MIN_def

lemma digit_not_space: "isdigit c \<Longrightarrow> \<not> isspace c"
  by (auto simp: isdigit_def isspace_def)

lemma digit_not_sign: "isdigit c \<Longrightarrow> c \<noteq> CHR ''-'' \<and> c \<noteq> CHR ''+''"
  by (auto simp: isdigit_def)

lemma decimal_mono:
  "\<forall>c\<in>set ds. isdigit c \<Longrightarrow> 0 \<le> acc \<Longrightarrow> acc \<le> decimal acc ds"
proof (induction ds arbitrary: acc)
  case Nil
  then show ?case by simp
next
  case (Cons c cs)
  then have "0 \<le> digit_value c"
    by (simp add: isdigit_def digit_value_def)
  with Cons.prems have "acc \<le> 10 * acc + digit_value c" by simp
  moreover from Cons have "10 * acc + digit_value c \<le> decimal (10 * acc + digit_value c) cs"
    using \<open>0 \<le> digit_value c\<close> by simp
  ultimately show ?case by simp
qed

lemma clamp_nonneg: "0 \<le> v \<Longrightarrow> max LONG_MIN (min LONG_MAX v) = min LONG_MAX v"
  by (simp add: LONG_MIN_def LONG_MAX_def)

lemma strtol_digits:
  assumes "digits \<noteq> []" "\<forall>c\<in>set digits. isdigit c"
  shows "strtol digits = (min LONG_MAX (decimal 0 digits), [])"
proof -
  from assms obtain c cs where d: "digits = c # cs" by (cases digits) auto
  with assms have c: "isdigit c" by simp
  have s: "dropWhile isspace digits = digits"
    using c d digit_not_space by simp
  have neg: "(case digits of [] \<Rightarrow> False | c # x \<Rightarrow> c = CHR ''-'') = False"
    using d digit_not_sign[OF c] by simp
  have sgn: "(case digits of [] \<Rightarrow> False | c # x \<Rightarrow> c = CHR ''-'' \<or> c = CHR ''+'') = False"
    using d digit_not_sign[OF c] by simp
  have t: "takeWhile isdigit digits = digits" "dropWhile isdigit digits = []"
    using assms(2) by simp_all
  have "0 \<le> decimal 0 digits"
    using decimal_mono[OF assms(2), of 0] by simp
  then show ?thesis
    unfolding strtol_def by (simp add: Let_def s neg sgn t assms(1) clamp_nonneg)
qed

lemma strtol_space_plus:
  assumes "digits \<noteq> []" "\<forall>c\<in>set digits. isdigit c" "\<forall>c\<in>set ws. isspace c"
  shows "strtol (ws @ digits) = strtol digits"
    and "strtol (ws @ CHR ''+'' # digits) = strtol digits"
proof -
  from assms obtain c cs where d: "digits = c # cs" by (cases digits) auto
  with assms have c: "isdigit c" by simp
  have s0: "dropWhile isspace digits = digits"
    using c d digit_not_space by simp
  have s1: "dropWhile isspace (ws @ digits) = digits"
    using assms(3) s0 by (simp add: dropWhile_append2)
  have "\<not> isspace CHR ''+''" by (simp add: isspace_def)
  then have s2: "dropWhile isspace (ws @ CHR ''+'' # digits) = CHR ''+'' # digits"
    using assms(3) by (simp add: dropWhile_append2)
  have t: "takeWhile isdigit digits = digits" "dropWhile isdigit digits = []"
    using assms(2) by simp_all
  have nonneg: "0 \<le> decimal 0 digits"
    using decimal_mono[OF assms(2), of 0] by simp
  have neg: "(case digits of [] \<Rightarrow> False | c # x \<Rightarrow> c = CHR ''-'') = False"
    using d digit_not_sign[OF c] by simp
  have sgn: "(case digits of [] \<Rightarrow> False | c # x \<Rightarrow> c = CHR ''-'' \<or> c = CHR ''+'') = False"
    using d digit_not_sign[OF c] by simp
  have r: "strtol digits = (min LONG_MAX (decimal 0 digits), [])"
    using assms(1,2) by (rule strtol_digits)
  show "strtol (ws @ digits) = strtol digits"
    unfolding r unfolding strtol_def
    by (simp add: Let_def s1 neg sgn t assms(1) clamp_nonneg nonneg)
  show "strtol (ws @ CHR ''+'' # digits) = strtol digits"
    unfolding r unfolding strtol_def
    by (simp add: Let_def s2 t assms(1) clamp_nonneg nonneg)
qed

subsection \<open>The transfer size\<close>

lemma bit_length_le: "n < 2 ^ k \<Longrightarrow> bit_length n \<le> k"
proof (induction k arbitrary: n)
  case 0
  then show ?case by (simp add: bit_length.simps[of 0])
next
  case (Suc k)
  show ?case
  proof (cases "n = 0")
    case True
    then show ?thesis by (simp add: bit_length.simps[of 0])
  next
    case False
    from Suc.prems have "n div 2 < 2 ^ k" by simp
    then have "bit_length (n div 2) \<le> k" by (rule Suc.IH)
    with False show ?thesis by (simp add: bit_length.simps[of n])
  qed
qed

lemma float_of_unsigned_exact:
  assumes "2 ^ (bit_length (unat u) - 24) dvd unat u"
  shows "float_of_unsigned u = of_nat (unat u)"
proof -
  define e where "e = bit_length (unat u) - 24"
  from assms have r: "unat u mod 2 ^ e = 0" and q: "unat u div 2 ^ e * 2 ^ e = unat u"
    by (simp_all add: e_def)
  have "(of_nat (unat u div 2 ^ e * 2 ^ e) :: rat) = of_nat (unat u)"
    by (simp only: q)
  then have q': "(of_nat (unat u div 2 ^ e) :: rat) * 2 ^ e = of_nat (unat u)"
    by simp
  show ?thesis
    unfolding float_of_unsigned_def Let_def e_def[symmetric] r by (simp add: q')
qed

lemma float_of_unsigned_small:
  assumes "unat u < 2 ^ 24"
  shows "float_of_unsigned u = of_nat (unat u)"
proof -
  from assms have "bit_length (unat u) \<le> 24" by (rule bit_length_le)
  then show ?thesis by (simp add: float_of_unsigned_exact)
qed

lemma float_of_unsigned_1024:
  assumes "1024 dvd unat (u :: 32 word)"
  shows "float_of_unsigned u = of_nat (unat u)"
proof -
  have "unat u < 2 ^ 32" by (rule unat32_less)
  then have "bit_length (unat u) \<le> 32" by (rule bit_length_le)
  then have "bit_length (unat u) - 24 \<le> 10" by simp
  then have "(2::nat) ^ (bit_length (unat u) - 24) dvd 2 ^ 10"
    by (rule le_imp_power_dvd)
  then have "(2::nat) ^ (bit_length (unat u) - 24) dvd 1024"
    by simp
  then have "2 ^ (bit_length (unat u) - 24) dvd unat u"
    using assms by (rule dvd_trans)
  then show ?thesis by (rule float_of_unsigned_exact)
qed

lemma float_CL_BYTES: "float_of_unsigned (of_nat CL_BYTES) = 64"
  by (simp add: CL_BYTES_def float_of_unsigned_small)

lemma total_bytes_exact:
  assumes "unat (n :: 64 word) < 2 ^ 29"
  shows "unat (ucast (n * 8) :: 32 word) = unat n * 8"
proof -
  from assms have "unat n * 8 < 2 ^ 32" by simp
  then show ?thesis
    by (simp add: unsigned_ucast_eq take_bit_eq_mod unat_word_ariths)
qed

lemma num_cls_exact:
  assumes "128 dvd unat n" "unat n < 2 ^ 29"
  shows "unat (num_cls n) = unat n div 8"
    and "uint (num_cls n) = \<lceil>(of_nat (unat n * 8) :: rat) / of_nat CL_BYTES\<rceil>"
proof -
  from assms(1) obtain k where k: "unat n = 128 * k" by (auto simp: dvd_def)
  have tb: "unat (ucast (n * 8) :: 32 word) = unat n * 8"
    using assms(2) by (rule total_bytes_exact)
  then have "1024 dvd unat (ucast (n * 8) :: 32 word)" by (simp add: k)
  then have f: "float_of_unsigned (ucast (n * 8)) = of_nat (unat n * 8)"
    by (simp add: float_of_unsigned_1024 tb)
  have "(of_nat (unat n * 8) :: rat) / 64 = of_int (int (unat n div 8))"
    by (simp add: k)
  then have c: "\<lceil>(of_nat (unat n * 8) :: rat) / 64\<rceil> = int (unat n div 8)"
    by (simp only: ceiling_of_int)
  have nc: "num_cls n = word_of_nat (unat n div 8)"
    unfolding num_cls_def Let_def f float_CL_BYTES c by simp
  have "unat n div 8 < 2 ^ 32" using assms(2) by simp
  then show u: "unat (num_cls n) = unat n div 8"
    unfolding nc by (simp add: unat_of_nat)
  have "uint (num_cls n) = int (unat (num_cls n))" by simp
  also have "\<dots> = \<lceil>(of_nat (unat n * 8) :: rat) / of_nat CL_BYTES\<rceil>"
    unfolding u CL_BYTES_def using c by simp
  finally show "uint (num_cls n) = \<lceil>(of_nat (unat n * 8) :: rat) / of_nat CL_BYTES\<rceil>" .
qed

subsection \<open>Exceptions\<close>














subsection \<open>Runs of \<^verbatim>\<open>main\<close>\<close>

lemma main_usage:
  "checkUsage (length (name # args)) (name # args) = None \<Longrightarrow>
   main name args cfg drv = Some (EXIT_FAILURE, [printUsage name])"
  by (simp add: main_def)

lemma main_success:
  assumes "checkUsage (length (name # args)) (name # args) = Some n"
    and "main name args cfg drv = Some (EXIT_SUCCESS, tr)"
  shows "\<exists>hz a_in a_out k. cooperative cfg drv n (n div 16) hz a_in a_out k \<and>
           tr = run_trace cfg drv n hz a_in a_out k"
proof -
  let ?start = "\<lparr>mem = shared_memory drv, trace = []\<rparr>"
  from assms obtain u m' where
    r: "try_block cfg drv n (n div 16) ?start = Some (Inr (u, m'))" and tr: "tr = trace m'"
    by (auto simp: main_def Let_def EXIT_SUCCESS_def EXIT_FAILURE_def
        split: option.splits sum.splits prod.splits)
  from try_block_InrD[OF r] obtain hz a_in a_out k where
    c: "cooperative cfg drv n (n div 16) hz a_in a_out k" and
    m': "m' = \<lparr>mem = initialised drv n (n div 16),
            trace = setup_events cfg n (n div 16) hz @ go_events n a_in a_out @
                    wait_events cfg k @ print_events drv n (n div 16) a_in a_out k @ finish_events\<rparr>"
    by blast
  from tr m' have "tr = run_trace cfg drv n hz a_in a_out k"
    by (simp add: run_trace_def)
  with c show ?thesis by blast
qed

lemma main_cooperative:
  assumes "checkUsage (length (name # args)) (name # args) = Some n"
    and "cooperative cfg drv n (n div 16) hz a_in a_out k"
  shows "main name args cfg drv = Some (EXIT_SUCCESS, run_trace cfg drv n hz a_in a_out k)"
  using assms(1) try_block_InrI[OF assms(2)]
  by (simp add: main_def Let_def run_trace_def)

lemma main_failure:
  assumes "checkUsage (length (name # args)) (name # args) = Some n"
    and "main name args cfg drv = Some (EXIT_FAILURE, tr)"
  shows "\<exists>e m'. try_block cfg drv n (n div 16) \<lparr>mem = shared_memory drv, trace = []\<rparr> =
            Some (Inl (e, m')) \<and> tr = trace m' @ [catch cfg drv e]"
  using assms
  by (auto simp: main_def Let_def EXIT_SUCCESS_def EXIT_FAILURE_def
      split: option.splits sum.splits prod.splits)

lemma main_status:
  assumes "main name args cfg drv = Some (status, tr)"
  shows "status = EXIT_SUCCESS \<or> status = EXIT_FAILURE"
  using assms
  by (auto simp: main_def Let_def split: option.splits sum.splits prod.splits)

lemma concat_replicate_single: "concat (replicate k [x]) = replicate k x"
  by (induction k) simp_all

lemma filter_concat_replicate:
  "filter P (concat (replicate k xs)) = concat (replicate k (filter P xs))"
  by (induction k) simp_all

lemma concat_map_single: "concat (map (\<lambda>i. [f i]) xs) = map f xs"
  by (induction xs) simp_all

lemma filter_concat_map:
  "filter P (concat (map f xs)) = concat (map (\<lambda>i. filter P (f i)) xs)"
  by (induction xs) simp_all

lemmas filter_trace =
  run_trace_def setup_events_def go_events_def wait_events_def print_events_def
  finish_events_def poll_events_def filter_concat_replicate filter_concat_map filter_map
  comp_def concat_replicate_single concat_map_single

lemma control_run_trace:
  "filter is_control (run_trace cfg drv n hz a_in a_out k) =
   [MMIO_write MMIO_RD_ADDR a_in, MMIO_write MMIO_WR_ADDR a_out,
    MMIO_write MMIO_SIZE (ucast (num_cls n)), MMIO_write MMIO_GO 1] @
   replicate (Suc k) (MMIO_read MMIO_DONE) @
   map (Load Output) [0..<unat n div 16] @ [Call_free Input, Call_free Output]"
  by (simp add: filter_trace is_control_def unat_div_16 replicate_append_same)

lemma malloc_run_trace:
  "filter (is_malloc Output) (run_trace cfg drv n hz a_in a_out k) =
   [Call_malloc Output (n div 16)]"
  by (simp add: filter_trace is_malloc_def)

lemma store_run_trace:
  "filter (is_store Output) (run_trace cfg drv n hz a_in a_out k) =
   map (\<lambda>i. Store Output i 0) [0..<unat n div 16]"
  by (simp add: filter_trace is_store_def unat_div_16)

lemma value_run_trace:
  "length (filter is_value (run_trace cfg drv n hz a_in a_out k)) = unat n div 16"
  by (simp add: filter_trace is_value_def unat_div_16)

lemma load_run_trace:
  "filter is_output_load (run_trace cfg drv n hz a_in a_out k) =
   map (Load Output) [0..<unat n div 16]"
  by (simp add: filter_trace is_output_load_def unat_div_16)

lemma replay_append: "replay (xs @ ys) memory = replay ys (replay xs memory)"
  by (induction xs arbitrary: memory) simp_all

lemma replay_stores:
  "replay (map (\<lambda>i. Store b i v) [0..<n]) memory =
   memory(b := (\<lambda>i. if i < n then v else memory b i))"
  by (induction n) (auto simp: replay_append fun_eq_iff)

lemma takeWhile_before_go:
  "takeWhile (\<lambda>e. e \<noteq> MMIO_write MMIO_GO 1) (run_trace cfg drv n hz a_in a_out k) =
   setup_events cfg n (n div 16) hz @
   [MMIO_write MMIO_RD_ADDR a_in, MMIO_write MMIO_WR_ADDR a_out,
    MMIO_write MMIO_SIZE (ucast (num_cls n))]"
proof -
  have "\<forall>e\<in>set (setup_events cfg n (n div 16) hz). e \<noteq> MMIO_write MMIO_GO 1"
    by (auto simp: setup_events_def)
  then show ?thesis
    by (simp add: run_trace_def go_events_def takeWhile_append2)
qed

lemma replay_before_go:
  "replay (takeWhile (\<lambda>e. e \<noteq> MMIO_write MMIO_GO 1) (run_trace cfg drv n hz a_in a_out k))
     (shared_memory drv) = initialised drv n (n div 16)"
  unfolding takeWhile_before_go
  by (simp add: setup_events_def replay_append replay_stores initialised_def fun_eq_iff)

lemma sum_sixteen_ones:
  assumes "\<forall>i<16 * j + 16. f i = (1 :: 64 word)"
  shows "sum_list (map f [16 * j..<16 * j + 16]) = 16"
proof -
  have "map f [16 * j..<16 * j + 16] = map (\<lambda>i. 1) [16 * j..<16 * j + 16]"
    using assms by (intro map_cong) auto
  also have "\<dots> = replicate 16 1"
    by (simp add: map_replicate_const)
  finally show ?thesis by (simp add: sum_list_replicate)
qed

lemma values_run_trace:
  assumes "Cout_value v \<in> set (run_trace cfg drv n hz a_in a_out k)"
  shows "\<exists>j<unat n div 16.
     v = accelerator drv (mmio_events n a_in a_out k) (initialised drv n (n div 16)) j"
  using assms
  by (auto simp: run_trace_def setup_events_def go_events_def wait_events_def print_events_def
      finish_events_def poll_events_def unat_div_16 split: if_splits)

lemma value_list_run_trace:
  "filter is_value (run_trace cfg drv n hz a_in a_out k) =
   map (\<lambda>j. Cout_value (accelerator drv (mmio_events n a_in a_out k)
                              (initialised drv n (n div 16)) j)) [0..<unat n div 16]"
  by (simp add: filter_trace is_value_def unat_div_16)

subsection \<open>What the accelerator transfers on a run\<close>

lemma transferred_run:
  "transferred a_in a_out (mmio_events n a_in a_out k) = unat (num_cls n) * 8"
  by (simp add: transferred_def mmio_events_def go_events_def Let_def CL_BYTES_def
      unat_ucast_32_64 list_all_iff)

lemma simple_pipeline_run:
  "simple_pipeline a_in a_out (mmio_events n a_in a_out k) (initialised drv n (n div 16)) j =
   (if 16 * j + 16 \<le> unat (num_cls n) * 8
    then sum_list (map (initialised drv n (n div 16) Input) [16 * j..<16 * j + 16])
    else initialised drv n (n div 16) Output j)"
  by (simp add: simple_pipeline_def transferred_run)

lemma checkUsage_dvd:
  assumes "checkUsage argc argv = Some n"
  shows "128 dvd unat n"
proof -
  let ?v = "fst (strtol (argv ! 1))"
  from assms have pos: "0 < ?v" and m: "?v mod 128 = 0" and n: "n = word_of_int ?v"
    by (simp_all add: checkUsage_Some_iff)
  from pos strtol_range[of "argv ! 1"] have "uint n = ?v"
    unfolding n by (intro uint_word_of_long) simp_all
  with pos have "unat n = nat ?v" by (simp add: unat_eq_nat_uint)
  moreover from m pos have "128 dvd nat ?v"
    by (metis dvd_eq_mod_eq_0 int_dvd_int_iff int_nat_eq less_le_not_le of_nat_numeral)
  ultimately show ?thesis by simp
qed

lemma sixteen_transferred:
  assumes "128 dvd unat n" and "unat n < 2 ^ 29" and "j < unat n div 16"
  shows "simple_pipeline a_in a_out (mmio_events n a_in a_out k)
           (initialised drv n (n div 16)) j = 16"
proof -
  from assms(1) obtain d where d: "unat n = 128 * d" by (auto simp: dvd_def)
  from assms(1,2) have "unat (num_cls n) = unat n div 8" by (rule num_cls_exact)
  with d have t: "unat (num_cls n) * 8 = unat n" by simp
  from assms(3) have j: "16 * j + 16 \<le> unat n" by (simp add: d)
  then have "\<forall>i<16 * j + 16. initialised drv n (n div 16) Input i = 1"
    by (auto simp: initialised_def)
  then have "sum_list (map (initialised drv n (n div 16) Input) [16 * j..<16 * j + 16]) = 16"
    by (rule sum_sixteen_ones)
  with t j show ?thesis by (simp add: simple_pipeline_run)
qed

lemma split_unique:
  assumes "A @ g # B = pre @ g' # rest" and "Q g'"
    and "\<forall>x\<in>set A. \<not> Q x" and "\<forall>x\<in>set B. \<not> Q x"
  shows "pre = A \<and> rest = B"
  using assms
proof (induction A arbitrary: pre)
  case Nil
  then show ?case by (cases pre) auto
next
  case (Cons a A)
  then show ?case by (cases pre) auto
qed

lemma first_split:
  assumes "xs = mid @ l # post" and "Q l" and "\<forall>x\<in>set mid. \<not> Q x"
  shows "mid = takeWhile (\<lambda>x. \<not> Q x) xs"
  using assms by (simp add: takeWhile_append2)

lemma quiet_window:
  assumes tr: "tr = setup_events cfg n no hz @ go_events n a_in a_out @ wait_events cfg k @
                    print_events drv n no a_in a_out k @ fin"
    and fin: "\<forall>x\<in>set fin. \<not> is_output_load x \<and> (\<forall>v. x \<noteq> MMIO_write MMIO_GO v)"
    and split: "tr = pre @ MMIO_write MMIO_GO v # mid @ Load Output i # post"
    and first: "\<forall>j. Load Output j \<notin> set mid"
  shows "\<forall>e\<in>set mid. e = MMIO_read MMIO_DONE \<or> e = Sleep (SLEEP_MS cfg)"
proof -
  let ?A = "setup_events cfg n no hz @
     [MMIO_write MMIO_RD_ADDR a_in, MMIO_write MMIO_WR_ADDR a_out,
      MMIO_write MMIO_SIZE (ucast (num_cls n))]"
  let ?B = "wait_events cfg k @ print_events drv n no a_in a_out k @ fin"
  let ?Q = "\<lambda>e. \<exists>v. e = MMIO_write MMIO_GO v"
  have polls: "\<forall>e\<in>set (wait_events cfg k). e = MMIO_read MMIO_DONE \<or> e = Sleep (SLEEP_MS cfg)"
    by (auto simp: wait_events_def poll_events_def split: if_splits)
  have A: "\<forall>x\<in>set ?A. \<not> ?Q x"
    by (auto simp: setup_events_def)
  have B: "\<forall>x\<in>set ?B. \<not> ?Q x"
    using fin polls by (auto simp: print_events_def)
  have "?A @ MMIO_write MMIO_GO 1 # ?B = pre @ MMIO_write MMIO_GO v # (mid @ Load Output i # post)"
    using tr split by (simp add: go_events_def)
  from split_unique[OF this _ A B] have rest: "mid @ Load Output i # post = ?B"
    by blast
  have nl: "\<forall>x\<in>set mid. \<not> is_output_load x"
  proof
    fix x assume x: "x \<in> set mid"
    show "\<not> is_output_load x"
    proof
      assume "is_output_load x"
      then obtain j where "x = Load Output j"
        by (cases x) (auto simp: is_output_load_def)
      with x first show False by blast
    qed
  qed
  have "is_output_load (Load Output i)" by (simp add: is_output_load_def)
  from first_split[OF rest[symmetric] this nl]
  have mid: "mid = takeWhile (\<lambda>x. \<not> is_output_load x) ?B" .
  have W: "\<forall>x\<in>set (wait_events cfg k). \<not> is_output_load x"
    using polls by (auto simp: is_output_load_def)
  show ?thesis
  proof (cases "unat no")
    case 0
    then have "\<forall>x\<in>set ?B. \<not> is_output_load x"
      using W fin by (auto simp: print_events_def)
    moreover have "Load Output i \<in> set ?B"
      unfolding rest[symmetric] by simp
    ultimately have "\<not> is_output_load (Load Output i)" by blast
    then show ?thesis by (simp add: is_output_load_def)
  next
    case (Suc d)
    then have "[0..<unat no] = 0 # [Suc 0..<unat no]"
      by (simp add: upt_conv_Cons del: upt_Suc)
    then obtain ps where "print_events drv n no a_in a_out k = Load Output 0 # ps"
      by (simp add: print_events_def)
    then have "mid = wait_events cfg k"
      unfolding mid using W by (simp add: takeWhile_append2 is_output_load_def)
    with polls show ?thesis by simp
  qed
qed


lemma example_cooperative:
  "unat n < 2 ^ 32 \<Longrightarrow>
   cooperative example_config example_driver n (n div 16) 200000000 4096 8192 2"
  by (simp add: cooperative_def example_driver_def unat_div_16)

lemma example_run:
  assumes "checkUsage (length (name # [arg])) (name # [arg]) = Some n" "unat n < 2 ^ 32"
  shows "main name [arg] example_config example_driver =
     Some (EXIT_SUCCESS, run_trace example_config example_driver n 200000000 4096 8192 2)"
  using assms(1) example_cooperative[OF assms(2)] by (rule main_cooperative)

lemma checkUsage_128: "checkUsage (length (''dma'' # [''128''])) (''dma'' # [''128'']) = Some 128"
  by (simp add: checkUsage_Some_iff parse_eval)

lemma checkUsage_2_29:
  "checkUsage (length (''dma'' # [''536870912''])) (''dma'' # [''536870912'']) = Some 536870912"
  by (simp add: checkUsage_Some_iff parse_eval)

lemma run_128:
  "main ''dma'' [''128''] example_config example_driver =
     Some (EXIT_SUCCESS, run_trace example_config example_driver 128 200000000 4096 8192 2)"
  using checkUsage_128 by (rule example_run) simp

lemma valid_not_usage:
  assumes "checkUsage (length (name # args)) (name # args) = Some n"
  shows "main name args cfg drv \<noteq> Some (EXIT_FAILURE, [printUsage name])"
proof
  assume m: "main name args cfg drv = Some (EXIT_FAILURE, [printUsage name])"
  from main_failure[OF assms m] obtain e m' where
    r: "try_block cfg drv n (n div 16) \<lparr>mem = shared_memory drv, trace = []\<rparr> =
            Some (Inl (e, m'))" and
    eq: "[printUsage name] = trace m' @ [catch cfg drv e]" by (elim exE conjE)
  from eq have "printUsage name = catch cfg drv e" by simp
  moreover have "\<exists>message. catch cfg drv e = Cerr message"
    by (cases e) (simp_all add: catch_def)
  ultimately show False
    by (auto simp: printUsage_def)
qed

lemma checkUsage_args:
  "checkUsage (length (name # args)) (name # args) \<noteq> None \<longleftrightarrow>
   (\<exists>s. args = [s] \<and> snd (strtol s) = [] \<and> 0 < fst (strtol s) \<and> fst (strtol s) mod 128 = 0)"
proof (cases args)
  case Nil
  then show ?thesis by (simp add: checkUsage_def)
next
  case (Cons s rest)
  show ?thesis
  proof (cases rest)
    case Nil
    have l: "length (name # [s]) = 2" by simp
    show ?thesis
      unfolding Cons Nil l using checkUsage_Some_iff[of 2 "[name, s]"] by auto
  next
    case (Cons t rest')
    with \<open>args = s # rest\<close> show ?thesis by (simp add: checkUsage_def)
  qed
qed

lemma strtol_examples:
  "strtol ''100'' = (100, [])"
  "strtol ''128'' = (128, [])"
  "strtol ''12x8'' = (12, ''x8'')"
  "strtol ''-128'' = (-128, [])"
  "strtol ''12a'' = (12, ''a'')"
  "strtol ''0'' = (0, [])"
  "strtol ''-5'' = (-5, [])"
  "strtol [] = (0, [])"
  by (simp_all add: parse_eval)

lemma checkUsage_2_32:
  "checkUsage (length (''dma'' # [''4294967296''])) (''dma'' # [''4294967296'']) =
   Some 4294967296"
  by (simp add: checkUsage_Some_iff parse_eval)

lemma checkUsage_2_29_128:
  "checkUsage (length (''dma'' # [''536871040''])) (''dma'' # [''536871040'']) =
   Some 536871040"
  by (simp add: checkUsage_Some_iff parse_eval)

subsection \<open>The counts of a run\<close>

text \<open>
  A run that returns \<^verbatim>\<open>EXIT_SUCCESS\<close> has allocated the output buffer once, with
  \<^verbatim>\<open>num_inputs / 16\<close> elements, has initialised the outputs \<open>0\<close> to
  \<^verbatim>\<open>num_inputs / 16 - 1\<close>, and has loaded and printed each of them once, in order.
  Such a run needs an input count below \<open>2 ^ 32\<close>; with one, a driver that answers
  every call and raises the done flag makes the run return \<^verbatim>\<open>EXIT_SUCCESS\<close>.
\<close>

lemma counts_of_successful_run:
  assumes "checkUsage (length (name # args)) (name # args) = Some num_inputs"
    and "main name args cfg drv = Some (EXIT_SUCCESS, tr)"
  shows "filter (is_malloc Output) tr = [Call_malloc Output (num_inputs div 16)] \<and>
    unat (num_inputs div 16) = unat num_inputs div 16 \<and>
    filter (is_store Output) tr = map (\<lambda>i. Store Output i 0) [0..<unat num_inputs div 16] \<and>
    filter is_output_load tr = map (Load Output) [0..<unat num_inputs div 16] \<and>
    length (filter is_value tr) = unat num_inputs div 16"
proof -
  from main_success[OF assms] obtain hz a_in a_out k where
    "tr = run_trace cfg drv num_inputs hz a_in a_out k" by blast
  then show ?thesis
    by (simp add: malloc_run_trace store_run_trace load_run_trace value_run_trace unat_div_16)
qed

lemma success_below_2_32:
  assumes "checkUsage (length (name # args)) (name # args) = Some num_inputs"
    and "main name args cfg drv = Some (EXIT_SUCCESS, tr)"
  shows "unat num_inputs < 2 ^ 32"
proof -
  from main_success[OF assms] obtain hz a_in a_out k where
    "cooperative cfg drv num_inputs (num_inputs div 16) hz a_in a_out k" by blast
  then show ?thesis by (simp add: cooperative_def)
qed

lemma returns_below_2_32:
  assumes "checkUsage (length (name # args)) (name # args) = Some num_inputs"
    and "unat num_inputs < 2 ^ 32"
    and "afu_open drv (AFU_ACCEL_UUID cfg) = None" and "afu_clock drv = Inr hz"
    and "afu_alloc drv Input num_inputs = Inr a_in"
    and "afu_alloc drv Output (num_inputs div 16) = Inr a_out"
    and "\<forall>r v. afu_mmio_write drv r v = None" and "\<forall>b. afu_release drv b = None"
    and "\<forall>j<k. afu_mmio_read drv j MMIO_DONE = Inr 0"
    and "afu_mmio_read drv k MMIO_DONE = Inr v" and "v \<noteq> 0"
  shows "\<exists>tr. main name args cfg drv = Some (EXIT_SUCCESS, tr)"
proof -
  from assms(2) have "unat (num_inputs div 16) < 2 ^ 32"
    by (simp add: unat_div_16)
  with assms(2-) have "cooperative cfg drv num_inputs (num_inputs div 16) hz a_in a_out k"
    unfolding cooperative_def by blast
  from main_cooperative[OF assms(1) this] show ?thesis by blast
qed

lemma example_hangs:
  assumes "checkUsage (length (name # [arg])) (name # [arg]) = Some n"
    and "2 ^ 32 \<le> unat n"
  shows "main name [arg] example_config example_driver = None"
proof -
  have "for_unsigned (\<lambda>i. store Input i 1) n 0 m = None" for m
    using assms(2) by (rule for_unsigned_diverges)
  with assms(1) show ?thesis
    by (simp add: main_def Let_def try_block_def and_then_def AFU_construct_def
        AFU_measureClock_def AFU_malloc_def cout_def succeed_def example_driver_def)
qed

subsection \<open>The values of a run\<close>

text \<open>
  The stores made before the write of 1 to \<^verbatim>\<open>MMIO_GO\<close> leave every input element 1 and
  every output element 0. With the accelerator \<open>simple_pipeline\<close> at the buffers'
  addresses and an input count below \<open>2 ^ 29\<close>, for which the size written is exact,
  every value printed is 16.
\<close>

lemma buffers_before_go:
  assumes "checkUsage (length (name # args)) (name # args) = Some num_inputs"
    and "main name args cfg drv = Some (EXIT_SUCCESS, tr)"
  shows "(\<forall>i<unat num_inputs.
       replay (takeWhile (\<lambda>e. e \<noteq> MMIO_write MMIO_GO 1) tr) (shared_memory drv) Input i = 1) \<and>
    (\<forall>j<unat num_inputs div 16.
       replay (takeWhile (\<lambda>e. e \<noteq> MMIO_write MMIO_GO 1) tr) (shared_memory drv) Output j = 0)"
proof -
  from main_success[OF assms] obtain hz a_in a_out k where
    tr: "tr = run_trace cfg drv num_inputs hz a_in a_out k" by blast
  show ?thesis
    unfolding tr replay_before_go by (simp add: initialised_def unat_div_16)
qed

lemma sixteen_below_2_29:
  assumes "checkUsage (length (name # args)) (name # args) = Some num_inputs"
    and "unat num_inputs < 2 ^ 29"
    and "main name args cfg drv = Some (EXIT_SUCCESS, tr)"
    and "afu_alloc drv Input num_inputs = Inr a_in"
    and "afu_alloc drv Output (num_inputs div 16) = Inr a_out"
    and "accelerator drv = simple_pipeline a_in a_out"
    and "Cout_value v \<in> set tr"
  shows "v = 16"
proof -
  from main_success[OF assms(1,3)] obtain hz a_in' a_out' k where
    c: "cooperative cfg drv num_inputs (num_inputs div 16) hz a_in' a_out' k" and
    tr: "tr = run_trace cfg drv num_inputs hz a_in' a_out' k" by blast
  from c assms(4,5) have a: "a_in' = a_in" "a_out' = a_out"
    by (simp_all add: cooperative_def)
  from assms(7) tr a values_run_trace obtain j where j: "j < unat num_inputs div 16" and
    v: "v = accelerator drv (mmio_events num_inputs a_in a_out k)
              (initialised drv num_inputs (num_inputs div 16)) j"
    by blast
  from assms(1) have "128 dvd unat num_inputs" by (rule checkUsage_dvd)
  from sixteen_transferred[OF this assms(2) j] show ?thesis
    unfolding v assms(6) .
qed

lemma accelerator_example: "accelerator example_driver = simple_pipeline 4096 8192"
  by (simp add: example_driver_def)

lemma sixteen_128:
  "\<exists>tr. main ''dma'' [''128''] example_config example_driver = Some (EXIT_SUCCESS, tr) \<and>
     filter is_value tr = replicate 8 (Cout_value 16)"
proof -
  let ?tr = "run_trace example_config example_driver 128 200000000 4096 8192 2"
  have "accelerator example_driver (mmio_events 128 4096 8192 2)
          (initialised example_driver 128 (128 div 16)) j = 16"
    if "j < unat (128 :: 64 word) div 16" for j
    unfolding accelerator_example using that by (intro sixteen_transferred) simp_all
  then have "filter is_value ?tr = map (\<lambda>j. Cout_value 16) [0..<unat (128 :: 64 word) div 16]"
    unfolding value_list_run_trace by (intro map_cong refl) simp
  then have "filter is_value ?tr = replicate 8 (Cout_value 16)"
    by (simp add: map_replicate_const)
  with run_128 show ?thesis by blast
qed

text \<open>
  With the argument 536870912 the size written is 0 (claim C2): nothing is transferred,
  and every value printed is the 0 that the software stored.
\<close>

lemma zero_2_29:
  "\<exists>tr. main ''dma'' [''536870912''] example_config example_driver = Some (EXIT_SUCCESS, tr) \<and>
        filter is_value tr = replicate 33554432 (Cout_value 0)"
proof -
  let ?n = "536870912 :: 64 word"
  let ?tr = "run_trace example_config example_driver ?n 200000000 4096 8192 2"
  let ?memory = "initialised example_driver ?n 33554432"
  let ?out = "accelerator example_driver (mmio_events ?n 4096 8192 2) ?memory"
  have run: "main ''dma'' [''536870912''] example_config example_driver =
     Some (EXIT_SUCCESS, ?tr)"
    using checkUsage_2_29 by (rule example_run) simp
  have size: "num_cls ?n = 0"
    by (simp add: num_cls_def float_CL_BYTES float_of_unsigned_small)
  have out: "?out j = ?memory Output j" for j
    using simple_pipeline_run[of 4096 8192 ?n 2 example_driver j]
    by (simp add: accelerator_example size)
  have zero: "?out j = 0" if "j < 33554432" for j
  proof -
    from that have "?memory Output j = 0"
      by (simp add: initialised_def)
    then show ?thesis by (simp add: out)
  qed
  have "filter is_value ?tr = map (\<lambda>j. Cout_value (?out j)) [0..<33554432]"
    by (simp add: value_list_run_trace)
  also have "\<dots> = replicate 33554432 (Cout_value 0)"
    by (rule nth_equalityI) (simp_all add: zero)
  finally show ?thesis using run by blast
qed

section \<open>The claims\<close>

text \<open>
  Claim C1. The program proceeds past the argument check (\<^verbatim>\<open>checkUsage\<close> returns true)
  if and only if exactly one positional argument is given and \<^verbatim>\<open>strtol\<close> reads all of
  it as a positive integer that is a multiple of 128; and in exactly the other cases
  \<^verbatim>\<open>main\<close> prints the usage message, does nothing else, and exits with status 1.
\<close>

theorem argument_check:
  "(checkUsage (length (name # args)) (name # args) \<noteq> None) =
     (\<exists>s. args = [s] \<and> snd (strtol s) = [] \<and> 0 < fst (strtol s) \<and> fst (strtol s) mod 128 = 0) \<and>
   (main name args cfg drv = Some (1, [printUsage name])) =
     (\<not> (\<exists>s. args = [s] \<and> snd (strtol s) = [] \<and> 0 < fst (strtol s) \<and>
              fst (strtol s) mod 128 = 0))"
proof (intro conjI)
  show "(checkUsage (length (name # args)) (name # args) \<noteq> None) =
     (\<exists>s. args = [s] \<and> snd (strtol s) = [] \<and> 0 < fst (strtol s) \<and> fst (strtol s) mod 128 = 0)"
    by (rule checkUsage_args)
  show "(main name args cfg drv = Some (1, [printUsage name])) =
     (\<not> (\<exists>s. args = [s] \<and> snd (strtol s) = [] \<and> 0 < fst (strtol s) \<and>
              fst (strtol s) mod 128 = 0))"
  proof (cases "checkUsage (length (name # args)) (name # args)")
    case None
    then have "main name args cfg drv = Some (1, [printUsage name])"
      using main_usage[of name args cfg drv] by (simp add: EXIT_FAILURE_def)
    with None show ?thesis
      using checkUsage_args[of name args] by simp
  next
    case (Some n)
    then have "main name args cfg drv \<noteq> Some (1, [printUsage name])"
      using valid_not_usage[of name args n cfg drv] by (simp add: EXIT_FAILURE_def)
    with Some show ?thesis
      using checkUsage_args[of name args] by simp
  qed
qed

theorem argument_check_witness:
  "main ''dma'' [''100''] example_config example_driver = Some (1, [printUsage ''dma'']) \<and>
   main ''dma'' [] example_config example_driver = Some (1, [printUsage ''dma'']) \<and>
   main ''dma'' [''128'', ''1''] example_config example_driver = Some (1, [printUsage ''dma'']) \<and>
   main ''dma'' [''12x8''] example_config example_driver = Some (1, [printUsage ''dma'']) \<and>
   main ''dma'' [''-128''] example_config example_driver = Some (1, [printUsage ''dma'']) \<and>
   checkUsage (length (''dma'' # [''128''])) (''dma'' # [''128'']) \<noteq> None \<and>
   main ''dma'' [''128''] example_config example_driver \<noteq> Some (1, [printUsage ''dma''])"
  using argument_check[of "''dma''" "[''100'']" example_config example_driver]
    argument_check[of "''dma''" "[]" example_config example_driver]
    argument_check[of "''dma''" "[''128'', ''1'']" example_config example_driver]
    argument_check[of "''dma''" "[''12x8'']" example_config example_driver]
    argument_check[of "''dma''" "[''-128'']" example_config example_driver]
    argument_check[of "''dma''" "[''128'']" example_config example_driver]
  by (simp add: strtol_examples)

text \<open>
  Claim C2. The claim is that for every validated \<^verbatim>\<open>num_inputs\<close> the value written to
  \<^verbatim>\<open>MMIO_SIZE\<close> is the exact ceiling of \<^verbatim>\<open>num_inputs * sizeof(unsigned long)\<close> bytes
  over \<^verbatim>\<open>AFU::CL_BYTES\<close>. The byte count is stored in a 32-bit \<^verbatim>\<open>unsigned\<close>: with
  the argument 536870912 the count \<open>2 ^ 32\<close> wraps to 0, the run that the example driver
  lets succeed writes 0 to \<^verbatim>\<open>MMIO_SIZE\<close>, and the exact ceiling is 67108864.
\<close>

theorem size_register_truncated:
  "\<exists>tr. main ''dma'' [''536870912''] example_config example_driver = Some (EXIT_SUCCESS, tr) \<and>
        take 4 (filter is_control tr) =
          [MMIO_write MMIO_RD_ADDR 4096, MMIO_write MMIO_WR_ADDR 8192,
           MMIO_write MMIO_SIZE 0, MMIO_write MMIO_GO 1] \<and>
        \<lceil>(of_nat (unat (536870912 :: 64 word) * 8) :: rat) / of_nat CL_BYTES\<rceil> = 67108864"
proof -
  let ?tr = "run_trace example_config example_driver 536870912 200000000 4096 8192 2"
  have run: "main ''dma'' [''536870912''] example_config example_driver =
     Some (EXIT_SUCCESS, ?tr)"
    using checkUsage_2_29 by (rule example_run) simp
  have size: "num_cls 536870912 = 0"
    by (simp add: num_cls_def float_CL_BYTES float_of_unsigned_small)
  have "take 4 (filter is_control ?tr) =
          [MMIO_write MMIO_RD_ADDR 4096, MMIO_write MMIO_WR_ADDR 8192,
           MMIO_write MMIO_SIZE 0, MMIO_write MMIO_GO 1]"
    by (simp add: control_run_trace size)
  moreover have "\<lceil>(of_nat (unat (536870912 :: 64 word) * 8) :: rat) / of_nat CL_BYTES\<rceil> = 67108864"
    by (simp add: CL_BYTES_def)
  ultimately show ?thesis using run by blast
qed

text \<open>
  Claim C3. The claim is that for every validated input count \<^verbatim>\<open>num_inputs\<close> the number
  of outputs allocated, initialised and printed is \<^verbatim>\<open>num_inputs / 16\<close>. The loops of
  lines 75, 79 and 105 count with a 32-bit \<^verbatim>\<open>unsigned\<close> against the 64-bit count. The
  argument 4294967296 is a positive multiple of 128 and is accepted; with the example
  driver, which answers every call, the run never returns: it allocates the two buffers
  and stays in the loop of line 75, so no output is initialised and none is printed.
  Whatever the driver answers, the run with this argument does not reach
  \<^verbatim>\<open>return EXIT_SUCCESS\<close>.
\<close>

theorem outputs_lost_from_2_32:
  "checkUsage (length (''dma'' # [''4294967296''])) (''dma'' # [''4294967296'']) =
     Some 4294967296 \<and>
   main ''dma'' [''4294967296''] example_config example_driver = None \<and>
   (\<forall>m. for_unsigned (\<lambda>i. store Input i 1) 4294967296 0 m = None) \<and>
   (\<forall>cfg drv tr. main ''dma'' [''4294967296''] cfg drv \<noteq> Some (EXIT_SUCCESS, tr))"
proof (intro conjI allI)
  show "checkUsage (length (''dma'' # [''4294967296''])) (''dma'' # [''4294967296'']) =
     Some 4294967296"
    by (rule checkUsage_2_32)
  show "main ''dma'' [''4294967296''] example_config example_driver = None"
    using checkUsage_2_32 by (rule example_hangs) simp
  show "for_unsigned (\<lambda>i. store Input i 1) 4294967296 0 m = None" for m
    by (rule for_unsigned_diverges) simp
  show "main ''dma'' [''4294967296''] cfg drv \<noteq> Some (EXIT_SUCCESS, tr)" for cfg drv tr
    using success_below_2_32[OF checkUsage_2_32, of cfg drv tr] by auto
qed

text \<open>
  Claim C4. The claim is that on a run that returns \<^verbatim>\<open>EXIT_SUCCESS\<close> every printed
  output value is 16. The accelerator transfers as many cache lines as the software
  writes to \<^verbatim>\<open>MMIO_SIZE\<close>, and line 91 computes the byte count in a 32-bit
  \<^verbatim>\<open>unsigned\<close>. With the argument 536871040, a positive multiple of 128, the count
  \<open>2 ^ 32 + 1024\<close> wraps to 1024 and the size written is 16 cache lines, which hold 128
  of the 536871040 inputs. With the example driver the run returns \<^verbatim>\<open>EXIT_SUCCESS\<close>
  and prints 16 for the first 8 outputs and 0, the value that the software stored, for
  the other 33554432.
\<close>

theorem outputs_zero_from_2_29:
  "\<exists>tr. main ''dma'' [''536871040''] example_config example_driver = Some (EXIT_SUCCESS, tr) \<and>
        MMIO_write MMIO_SIZE 16 \<in> set tr \<and>
        filter is_value tr = replicate 8 (Cout_value 16) @ replicate 33554432 (Cout_value 0)"
proof -
  let ?n = "536871040 :: 64 word"
  let ?tr = "run_trace example_config example_driver ?n 200000000 4096 8192 2"
  let ?memory = "initialised example_driver ?n 33554440"
  let ?out = "accelerator example_driver (mmio_events ?n 4096 8192 2) ?memory"
  have run: "main ''dma'' [''536871040''] example_config example_driver =
     Some (EXIT_SUCCESS, ?tr)"
    using checkUsage_2_29_128 by (rule example_run) simp
  have size: "num_cls ?n = 16"
    by (simp add: num_cls_def float_CL_BYTES float_of_unsigned_small)
  have "MMIO_write MMIO_SIZE 16 \<in> set (filter is_control ?tr)"
    unfolding control_run_trace by (simp add: size)
  then have w: "MMIO_write MMIO_SIZE 16 \<in> set ?tr" by simp
  have out: "?out j =
      (if 16 * j + 16 \<le> 128 then sum_list (map (?memory Input) [16 * j..<16 * j + 16])
       else ?memory Output j)" for j
    using simple_pipeline_run[of 4096 8192 ?n 2 example_driver j]
    by (simp add: accelerator_example size)
  have first: "?out j = 16" if "j < 8" for j
  proof -
    from that have "\<forall>i<16 * j + 16. ?memory Input i = 1"
      by (auto simp: initialised_def)
    then have "sum_list (map (?memory Input) [16 * j..<16 * j + 16]) = 16"
      by (rule sum_sixteen_ones)
    with that show ?thesis by (simp add: out)
  qed
  have rest: "?out j = 0" if "\<not> j < 8" and "j < 33554440" for j
  proof -
    from that(2) have "?memory Output j = 0"
      by (simp add: initialised_def)
    with that(1) show ?thesis by (simp add: out)
  qed
  have "filter is_value ?tr = map (\<lambda>j. Cout_value (?out j)) [0..<33554440]"
    by (simp add: value_list_run_trace)
  also have "\<dots> = replicate 8 (Cout_value 16) @ replicate 33554432 (Cout_value 0)"
    by (rule nth_equalityI) (simp_all add: first rest nth_append)
  finally show ?thesis using run w by blast
qed

text \<open>
  Claim C5. On a run that returns \<^verbatim>\<open>EXIT_SUCCESS\<close> the control operations are, in this
  order: the write of the input buffer's address to \<^verbatim>\<open>MMIO_RD_ADDR\<close>, the write of the
  output buffer's address to \<^verbatim>\<open>MMIO_WR_ADDR\<close>, the write of the size to \<^verbatim>\<open>MMIO_SIZE\<close>,
  one write of 1 to \<^verbatim>\<open>MMIO_GO\<close>, one or more reads of \<^verbatim>\<open>MMIO_DONE\<close> and of no other
  register, the reads of the output buffer, the release of the input buffer and the
  release of the output buffer. No register is read before the write to \<^verbatim>\<open>MMIO_GO\<close>.
\<close>

theorem protocol_order:
  assumes "checkUsage (length (name # args)) (name # args) = Some num_inputs"
    and "main name args cfg drv = Some (EXIT_SUCCESS, tr)"
  shows "\<exists>input output polls.
    afu_alloc drv Input num_inputs = Inr input \<and>
    afu_alloc drv Output (num_inputs div 16) = Inr output \<and>
    filter is_control tr =
      [MMIO_write MMIO_RD_ADDR input, MMIO_write MMIO_WR_ADDR output,
       MMIO_write MMIO_SIZE (ucast (num_cls num_inputs)), MMIO_write MMIO_GO 1] @
      replicate (Suc polls) (MMIO_read MMIO_DONE) @
      map (Load Output) [0..<unat num_inputs div 16] @
      [Call_free Input, Call_free Output]"
proof -
  from main_success[OF assms] obtain hz a_in a_out k where
    c: "cooperative cfg drv num_inputs (num_inputs div 16) hz a_in a_out k" and
    tr: "tr = run_trace cfg drv num_inputs hz a_in a_out k" by blast
  from c have "afu_alloc drv Input num_inputs = Inr a_in"
    "afu_alloc drv Output (num_inputs div 16) = Inr a_out"
    by (simp_all add: cooperative_def)
  with tr show ?thesis
    using control_run_trace[of cfg drv num_inputs hz a_in a_out k] by blast
qed

theorem protocol_order_witness:
  "\<exists>tr. main ''dma'' [''128''] example_config example_driver = Some (EXIT_SUCCESS, tr) \<and>
     filter is_control tr =
      [MMIO_write MMIO_RD_ADDR 4096, MMIO_write MMIO_WR_ADDR 8192,
       MMIO_write MMIO_SIZE 16, MMIO_write MMIO_GO 1] @
      replicate 3 (MMIO_read MMIO_DONE) @ map (Load Output) [0..<8] @
      [Call_free Input, Call_free Output]"
proof -
  from protocol_order[OF checkUsage_128 run_128] obtain a_in a_out polls where
    "afu_alloc example_driver Input 128 = Inr a_in"
    "afu_alloc example_driver Output (128 div 16) = Inr a_out"
    "filter is_control (run_trace example_config example_driver 128 200000000 4096 8192 2) =
      [MMIO_write MMIO_RD_ADDR a_in, MMIO_write MMIO_WR_ADDR a_out,
       MMIO_write MMIO_SIZE (ucast (num_cls 128)), MMIO_write MMIO_GO 1] @
      replicate (Suc polls) (MMIO_read MMIO_DONE) @
      map (Load Output) [0..<unat (128 :: 64 word) div 16] @
      [Call_free Input, Call_free Output]"
    by blast
  then have "filter is_control (run_trace example_config example_driver 128 200000000 4096 8192 2) =
      [MMIO_write MMIO_RD_ADDR 4096, MMIO_write MMIO_WR_ADDR 8192,
       MMIO_write MMIO_SIZE 16, MMIO_write MMIO_GO 1] @
      replicate 3 (MMIO_read MMIO_DONE) @ map (Load Output) [0..<8] @
      [Call_free Input, Call_free Output]"
    using control_run_trace[of example_config example_driver 128 200000000 4096 8192 2]
    by (simp add: example_driver_def num_cls_def float_CL_BYTES float_of_unsigned_small)
  with run_128 show ?thesis by blast
qed

text \<open>
  Claim C6. The wait is left for the statement after it if and only if a read of
  \<^verbatim>\<open>MMIO_DONE\<close> that the loop makes returns a value that is not 0 (all reads before it
  returned 0); it never ends if and only if every read returns 0, however many there
  are; and what it does before it is left is, for each read of 0, the read and the
  sleep of \<^verbatim>\<open>SLEEP_MS\<close> when \<^verbatim>\<open>SLEEP_WHILE_WAITING\<close> is defined, then the last read: the
  buffers are not changed. Whether it ends or not, after \<open>n\<close> reads of 0 the wait goes on
  from a machine that differs only by these reads and sleeps in its trace.
\<close>

theorem wait_terminates_iff:
  "((\<exists>m'. wait_done cfg drv 0 m = Some (Inr ((), m'))) \<longleftrightarrow>
      (\<exists>k v. (\<forall>j<k. afu_mmio_read drv j MMIO_DONE = Inr 0) \<and>
             afu_mmio_read drv k MMIO_DONE = Inr v \<and> v \<noteq> 0)) \<and>
   (wait_done cfg drv 0 m = None \<longleftrightarrow> (\<forall>j. afu_mmio_read drv j MMIO_DONE = Inr 0)) \<and>
   (\<forall>m'. wait_done cfg drv 0 m = Some (Inr ((), m')) \<longrightarrow>
      mem m' = mem m \<and>
      (\<exists>k. trace m' = trace m @
         concat (replicate k (MMIO_read MMIO_DONE #
                   (if SLEEP_WHILE_WAITING cfg then [Sleep (SLEEP_MS cfg)] else []))) @
         [MMIO_read MMIO_DONE])) \<and>
   (\<forall>n. (\<forall>j<n. afu_mmio_read drv j MMIO_DONE = Inr 0) \<longrightarrow>
      wait_done cfg drv 0 m =
      wait_done cfg drv n
        (m\<lparr>trace := trace m @
           concat (replicate n (MMIO_read MMIO_DONE #
                     (if SLEEP_WHILE_WAITING cfg then [Sleep (SLEEP_MS cfg)] else [])))\<rparr>))"
proof (intro conjI allI impI)
  show "(\<exists>m'. wait_done cfg drv 0 m = Some (Inr ((), m'))) \<longleftrightarrow>
      (\<exists>k v. (\<forall>j<k. afu_mmio_read drv j MMIO_DONE = Inr 0) \<and>
             afu_mmio_read drv k MMIO_DONE = Inr v \<and> v \<noteq> 0)"
    by (auto simp: wait_done_Inr_iff)
  show "wait_done cfg drv 0 m = None \<longleftrightarrow> (\<forall>j. afu_mmio_read drv j MMIO_DONE = Inr 0)"
    by (simp add: wait_done_None_iff)
next
  fix m' assume "wait_done cfg drv 0 m = Some (Inr ((), m'))"
  then obtain k where m': "m' = log (MMIO_read MMIO_DONE) (polled cfg k m)"
    by (auto simp: wait_done_Inr_iff)
  then show "mem m' = mem m" by simp
  from m' have "trace m' = trace m @
         concat (replicate k (MMIO_read MMIO_DONE #
                   (if SLEEP_WHILE_WAITING cfg then [Sleep (SLEEP_MS cfg)] else []))) @
         [MMIO_read MMIO_DONE]"
    by (simp add: poll_events_def)
  then show "\<exists>k. trace m' = trace m @
         concat (replicate k (MMIO_read MMIO_DONE #
                   (if SLEEP_WHILE_WAITING cfg then [Sleep (SLEEP_MS cfg)] else []))) @
         [MMIO_read MMIO_DONE]" ..
next
  fix n assume "\<forall>j<n. afu_mmio_read drv j MMIO_DONE = Inr 0"
  then have "wait_done cfg drv 0 m = wait_done cfg drv (0 + n) (polled cfg n m)"
    by (intro wait_done_zeros) simp
  then show "wait_done cfg drv 0 m =
      wait_done cfg drv n
        (m\<lparr>trace := trace m @
           concat (replicate n (MMIO_read MMIO_DONE #
                     (if SLEEP_WHILE_WAITING cfg then [Sleep (SLEEP_MS cfg)] else [])))\<rparr>)"
    by (simp add: polled_def poll_events_def)
qed

theorem wait_terminates_iff_witness:
  "wait_done example_config example_driver 0 \<lparr>mem = (\<lambda>b i. 0), trace = []\<rparr> =
     Some (Inr ((), \<lparr>mem = (\<lambda>b i. 0),
       trace = [MMIO_read MMIO_DONE, Sleep 10, MMIO_read MMIO_DONE, Sleep 10,
                MMIO_read MMIO_DONE]\<rparr>)) \<and>
   wait_done example_config stalled_driver 0 \<lparr>mem = (\<lambda>b i. 0), trace = []\<rparr> = None"
proof -
  let ?m = "\<lparr>mem = (\<lambda>b i. 0), trace = []\<rparr>"
  note w = wait_terminates_iff[of example_config example_driver ?m]
  note s = wait_terminates_iff[of example_config stalled_driver ?m]
  have z: "\<forall>j<2. afu_mmio_read example_driver j MMIO_DONE = Inr 0"
    by (simp add: example_driver_def)
  have nz: "afu_mmio_read example_driver 2 MMIO_DONE = Inr 1"
    by (simp add: example_driver_def)
  from wait_done_finish[OF z nz, of example_config ?m]
  have "wait_done example_config example_driver 0 ?m =
     Some (Inr ((), \<lparr>mem = (\<lambda>b i. 0),
       trace = [MMIO_read MMIO_DONE, Sleep 10, MMIO_read MMIO_DONE, Sleep 10,
                MMIO_read MMIO_DONE]\<rparr>))"
    by (simp add: log_def polled_def poll_events_def example_config_def numeral_2_eq_2)
  moreover from s have "wait_done example_config stalled_driver 0 ?m = None"
    by (simp add: stalled_driver_def)
  ultimately show ?thesis by simp
qed



text \<open>
  Claim C8. \<^verbatim>\<open>stringToPositiveInt\<close> throws if and only if \<^verbatim>\<open>strtol\<close> does not read the
  string to its end or reads a value that is not positive; otherwise it returns the
  value read, which is positive, so never 0. A nonempty string of digits with a positive
  value is accepted after white space and after white space and a \<open>+\<close> sign, and a string
  of digits whose value is above \<^verbatim>\<open>LONG_MAX\<close> is accepted with the value \<^verbatim>\<open>LONG_MAX\<close>.
\<close>

theorem stringToPositiveInt_throws:
  "(isl (stringToPositiveInt str) \<longleftrightarrow> snd (strtol str) \<noteq> [] \<or> fst (strtol str) \<le> 0) \<and>
   (\<forall>v. stringToPositiveInt str = Inr v \<longrightarrow>
      uint v = fst (strtol str) \<and> 0 < uint v \<and> v \<noteq> 0) \<and>
   (digits \<noteq> [] \<and> (\<forall>c\<in>set digits. isdigit c) \<and> (\<forall>c\<in>set ws. isspace c) \<and>
    0 < decimal 0 digits \<longrightarrow>
      stringToPositiveInt (ws @ digits) =
        Inr (word_of_int (min LONG_MAX (decimal 0 digits))) \<and>
      stringToPositiveInt (ws @ CHR ''+'' # digits) =
        Inr (word_of_int (min LONG_MAX (decimal 0 digits)))) \<and>
   (digits \<noteq> [] \<and> (\<forall>c\<in>set digits. isdigit c) \<and> LONG_MAX < decimal 0 digits \<longrightarrow>
      stringToPositiveInt digits = Inr (word_of_int LONG_MAX))"
proof (intro conjI allI impI)
  show "isl (stringToPositiveInt str) \<longleftrightarrow> snd (strtol str) \<noteq> [] \<or> fst (strtol str) \<le> 0"
    by (auto simp: stringToPositiveInt_def split: prod.splits)
next
  fix v assume v: "stringToPositiveInt str = Inr v"
  from stringToPositiveInt_uint[OF v] show "uint v = fst (strtol str)" "0 < uint v"
    by simp_all
  then show "v \<noteq> 0" by auto
next
  assume a: "digits \<noteq> [] \<and> (\<forall>c\<in>set digits. isdigit c) \<and> (\<forall>c\<in>set ws. isspace c) \<and>
    0 < decimal 0 digits"
  then have s: "strtol digits = (min LONG_MAX (decimal 0 digits), [])"
    by (simp add: strtol_digits)
  from a have p: "0 < min LONG_MAX (decimal 0 digits)"
    by (simp add: LONG_MAX_def)
  from a strtol_space_plus[of digits ws]
  have "strtol (ws @ digits) = strtol digits" "strtol (ws @ CHR ''+'' # digits) = strtol digits"
    by simp_all
  with s p show "stringToPositiveInt (ws @ digits) =
        Inr (word_of_int (min LONG_MAX (decimal 0 digits)))"
    "stringToPositiveInt (ws @ CHR ''+'' # digits) =
        Inr (word_of_int (min LONG_MAX (decimal 0 digits)))"
    by (simp_all add: stringToPositiveInt_def)
next
  assume a: "digits \<noteq> [] \<and> (\<forall>c\<in>set digits. isdigit c) \<and> LONG_MAX < decimal 0 digits"
  then have "strtol digits = (LONG_MAX, [])"
    by (simp add: strtol_digits)
  then show "stringToPositiveInt digits = Inr (word_of_int LONG_MAX)"
    by (simp add: stringToPositiveInt_def LONG_MAX_def)
qed

theorem stringToPositiveInt_throws_witness:
  "isl (stringToPositiveInt ''12a'') \<and> isl (stringToPositiveInt ''0'') \<and>
   isl (stringToPositiveInt ''-5'') \<and> isl (stringToPositiveInt '''') \<and>
   stringToPositiveInt ''128'' = Inr 128 \<and>
   stringToPositiveInt ('' '' @ ''128'') = Inr 128 \<and>
   stringToPositiveInt ('' '' @ CHR ''+'' # ''128'') = Inr 128 \<and>
   stringToPositiveInt ''9223372036854775808'' = Inr 9223372036854775807"
  using stringToPositiveInt_throws[of "''12a''" "''128''" "'' ''"]
    stringToPositiveInt_throws[of "''0''" "''9223372036854775808''" "[]"]
    stringToPositiveInt_throws[of "''-5''" "''128''" "[]"]
    stringToPositiveInt_throws[of "''''" "''128''" "'' ''"]
  by (simp add: strtol_examples isdigit_def isspace_def digit_value_def LONG_MAX_def)

text \<open>
  Claim C9. The initialisation loops count with a 32-bit \<^verbatim>\<open>unsigned\<close> against a 64-bit
  bound. For \<^verbatim>\<open>num_inputs\<close> below \<open>2 ^ 32\<close> the input loop ends after the iterations
  \<open>0\<close> to \<^verbatim>\<open>num_inputs - 1\<close>, one store of 1 each, and every input element is 1; for
  \<^verbatim>\<open>num_inputs\<close> of \<open>2 ^ 32\<close> or more it never ends. The same holds of the output loop,
  its bound \<^verbatim>\<open>num_outputs\<close> and the value 0.
\<close>

theorem init_loop_counter:
  "(unat num_inputs < 2 ^ 32 \<longrightarrow>
      (\<exists>m'. for_unsigned (\<lambda>i. store Input i 1) num_inputs 0 m = Some (Inr ((), m')) \<and>
            trace m' = trace m @ map (\<lambda>i. Store Input i 1) [0..<unat num_inputs] \<and>
            (\<forall>i<unat num_inputs. mem m' Input i = 1))) \<and>
   (2 ^ 32 \<le> unat num_inputs \<longrightarrow>
      for_unsigned (\<lambda>i. store Input i 1) num_inputs 0 m = None) \<and>
   (unat num_outputs < 2 ^ 32 \<longrightarrow>
      (\<exists>m'. for_unsigned (\<lambda>i. store Output i 0) num_outputs 0 m = Some (Inr ((), m')) \<and>
            trace m' = trace m @ map (\<lambda>i. Store Output i 0) [0..<unat num_outputs] \<and>
            (\<forall>i<unat num_outputs. mem m' Output i = 0))) \<and>
   (2 ^ 32 \<le> unat num_outputs \<longrightarrow>
      for_unsigned (\<lambda>i. store Output i 0) num_outputs 0 m = None)"
  by (simp add: for_unsigned_0 for_unsigned_diverges trace_fold_store mem_fold_store)

theorem init_loop_counter_witness:
  "for_unsigned (\<lambda>i. store Input i 1) 3 0 \<lparr>mem = (\<lambda>b i. 0), trace = []\<rparr> =
     Some (Inr ((), \<lparr>mem = (\<lambda>b i. 0)(Input := (\<lambda>i. if i < 3 then 1 else 0)),
                     trace = [Store Input 0 1, Store Input 1 1, Store Input 2 1]\<rparr>)) \<and>
   for_unsigned (\<lambda>i. store Input i 1) 4294967296 0 \<lparr>mem = (\<lambda>b i. 0), trace = []\<rparr> = None \<and>
   for_unsigned (\<lambda>i. store Input i 1) 4294967295 0 \<lparr>mem = (\<lambda>b i. 0), trace = []\<rparr> \<noteq> None"
proof -
  let ?m = "\<lparr>mem = (\<lambda>b i. 0), trace = []\<rparr>"
  from init_loop_counter[of 3 ?m 0] obtain m' where
    r: "for_unsigned (\<lambda>i. store Input i 1) 3 0 ?m = Some (Inr ((), m'))" and
    t: "trace m' = trace ?m @ map (\<lambda>i. Store Input i 1) [0..<unat (3 :: 64 word)]"
    by auto
  from r have "m' = fold (\<lambda>i. store Input i 1) [0..<unat (3 :: 64 word)] ?m"
    by (simp add: for_unsigned_Inr_iff)
  then have "mem m' = (\<lambda>b i. 0)(Input := (\<lambda>i. if i < 3 then 1 else 0))"
    by (simp only: mem_fold_store) (simp cong: if_cong)
  moreover from t have "trace m' = [Store Input 0 1, Store Input 1 1, Store Input 2 1]"
    by (simp add: upt_rec)
  ultimately have "m' = \<lparr>mem = (\<lambda>b i. 0)(Input := (\<lambda>i. if i < 3 then 1 else 0)),
                     trace = [Store Input 0 1, Store Input 1 1, Store Input 2 1]\<rparr>"
    by (intro machine.equality) simp_all
  with r init_loop_counter[of 4294967296 ?m 0] init_loop_counter[of 4294967295 ?m 0]
  show ?thesis by auto
qed

text \<open>
  Claim C10. In a run of \<^verbatim>\<open>main\<close> that ends, whatever its exit status, every event
  between a write to \<^verbatim>\<open>MMIO_GO\<close> and the first read of the output buffer after it is a
  read of \<^verbatim>\<open>MMIO_DONE\<close> or the sleep of \<^verbatim>\<open>SLEEP_MS\<close>: no register is written and no buffer
  element is stored.
\<close>

theorem quiet_between_go_and_print:
  assumes "main name args cfg drv = Some (status, tr)"
    and split: "tr = pre @ MMIO_write MMIO_GO v # mid @ Load Output i # post"
    and first: "\<forall>j. Load Output j \<notin> set mid"
  shows "\<forall>e\<in>set mid. e = MMIO_read MMIO_DONE \<or> e = Sleep (SLEEP_MS cfg)"
proof (cases "checkUsage (length (name # args)) (name # args)")
  case None
  with assms(1) have "tr = [printUsage name]"
    by (simp add: main_usage)
  with split show ?thesis
    by (cases pre) (simp_all add: printUsage_def)
next
  case (Some n)
  from main_status[OF assms(1)] show ?thesis
  proof
    assume "status = EXIT_SUCCESS"
    with assms(1) Some obtain hz a_in a_out k where
      "tr = run_trace cfg drv n hz a_in a_out k"
      using main_success by blast
    then have tr: "tr = setup_events cfg n (n div 16) hz @ go_events n a_in a_out @
        wait_events cfg k @ print_events drv n (n div 16) a_in a_out k @ finish_events"
      by (simp add: run_trace_def)
    have "\<forall>x\<in>set finish_events. \<not> is_output_load x \<and> (\<forall>v. x \<noteq> MMIO_write MMIO_GO v)"
      by (simp add: finish_events_def is_output_load_def)
    from quiet_window[OF tr this split first] show ?thesis .
  next
    assume "status = EXIT_FAILURE"
    with assms(1) Some obtain e m' where
      r: "try_block cfg drv n (n div 16) \<lparr>mem = shared_memory drv, trace = []\<rparr> =
            Some (Inl (e, m'))" and tr: "tr = trace m' @ [catch cfg drv e]"
      using main_failure by blast
    have c: "\<not> is_output_load (catch cfg drv e) \<and> (\<forall>v. catch cfg drv e \<noteq> MMIO_write MMIO_GO v)"
      by (auto simp: catch_def is_output_load_def split: exn.splits)
    from try_block_InlD[OF r] show ?thesis
    proof
      assume "\<forall>x\<in>set (trace m'). \<not> is_output_load x"
      with c tr have "\<forall>x\<in>set tr. \<not> is_output_load x" by simp
      moreover have "Load Output i \<in> set tr" unfolding split by simp
      ultimately have "\<not> is_output_load (Load Output i)" by blast
    then show ?thesis by (simp add: is_output_load_def)
    next
      assume "\<exists>hz a_in a_out k fin.
        trace m' = setup_events cfg n (n div 16) hz @ go_events n a_in a_out @
          wait_events cfg k @ print_events drv n (n div 16) a_in a_out k @ fin \<and>
        (\<forall>x\<in>set fin. \<not> is_output_load x \<and> (\<forall>v. x \<noteq> MMIO_write MMIO_GO v))"
      then obtain hz a_in a_out k fin where
        t: "trace m' = setup_events cfg n (n div 16) hz @ go_events n a_in a_out @
          wait_events cfg k @ print_events drv n (n div 16) a_in a_out k @ fin" and
        fin: "\<forall>x\<in>set fin. \<not> is_output_load x \<and> (\<forall>v. x \<noteq> MMIO_write MMIO_GO v)"
        by blast
      from t tr have tr': "tr = setup_events cfg n (n div 16) hz @ go_events n a_in a_out @
          wait_events cfg k @ print_events drv n (n div 16) a_in a_out k @ (fin @ [catch cfg drv e])"
        by simp
      from fin c have "\<forall>x\<in>set (fin @ [catch cfg drv e]).
          \<not> is_output_load x \<and> (\<forall>v. x \<noteq> MMIO_write MMIO_GO v)"
        by simp
      from quiet_window[OF tr' this split first] show ?thesis .
    qed
  qed
qed

theorem quiet_between_go_and_print_witness:
  "\<exists>tr pre mid post.
     main ''dma'' [''128''] example_config example_driver = Some (EXIT_SUCCESS, tr) \<and>
     tr = pre @ MMIO_write MMIO_GO 1 # mid @ Load Output 0 # post \<and>
     mid = [MMIO_read MMIO_DONE, Sleep 10, MMIO_read MMIO_DONE, Sleep 10, MMIO_read MMIO_DONE] \<and>
     list_all (\<lambda>e. e = MMIO_read MMIO_DONE \<or> e = Sleep 10) mid"
proof -
  let ?tr = "run_trace example_config example_driver 128 200000000 4096 8192 2"
  let ?pre = "setup_events example_config 128 (128 div 16) 200000000 @
     [MMIO_write MMIO_RD_ADDR 4096, MMIO_write MMIO_WR_ADDR 8192,
      MMIO_write MMIO_SIZE (ucast (num_cls 128))]"
  let ?mid = "[MMIO_read MMIO_DONE, Sleep 10, MMIO_read MMIO_DONE, Sleep 10, MMIO_read MMIO_DONE]"
  let ?post = "tl (print_events example_driver 128 (128 div 16) 4096 8192 2) @ finish_events"
  have p: "print_events example_driver 128 (128 div 16) 4096 8192 2 =
      Load Output 0 # tl (print_events example_driver 128 (128 div 16) 4096 8192 2)"
    by (simp add: print_events_def upt_conv_Cons)
  have d: "?tr = ?pre @ MMIO_write MMIO_GO 1 # ?mid @ Load Output 0 # ?post"
    unfolding run_trace_def go_events_def wait_events_def poll_events_def
    by (subst p) (simp add: example_config_def numeral_2_eq_2)
  have f: "\<forall>j. Load Output j \<notin> set ?mid" by simp
  from quiet_between_go_and_print[OF run_128 d f]
  have "list_all (\<lambda>e. e = MMIO_read MMIO_DONE \<or> e = Sleep 10) ?mid"
    by (simp add: example_config_def)
  with run_128 d show ?thesis by blast
qed

end
